theory Spec2Isabelle
  imports Complex_Main
begin

section \<open>The amount value type (xrp\_amount.py)\<close>

text \<open>
  Class \<open>XRP\<close> wraps one Python integer, the number of drops.  Python integers are
  unbounded, so the count is an \<open>int\<close>.  Only the integer part of the class is
  embedded: \<open>from_drops\<close>, the \<open>drops\<close> property, \<open>__add__\<close> and \<open>__sub__\<close>.  The
  generated \<open>__eq__\<close> compares the drops, which is equality of the datatype.
\<close>

datatype XRP = XRP (drops: int)

definition from_drops :: "int \<Rightarrow> XRP" where
  "from_drops amount = XRP amount"

definition xrp_add :: "XRP \<Rightarrow> XRP \<Rightarrow> XRP" where
  "xrp_add self other = from_drops (drops self + drops other)"

definition xrp_sub :: "XRP \<Rightarrow> XRP \<Rightarrow> XRP" where
  "xrp_sub self other = from_drops (drops self - drops other)"


section \<open>The data models (state/models.py)\<close>

text \<open>
  \<open>datetime.now()\<close> reads the wall clock.  A reading is an opaque number here, and
  every operation that reads the clock takes the reading as an argument \<open>now\<close>.
\<close>

type_synonym datetime = nat

datatype TransactionStatus = PENDING | VALIDATED | FAILED

record AccountState =
  address :: string
  balance :: XRP
  previous_balance :: "XRP option"
  sequence :: int
  last_updated :: datetime

text \<open>The constructor call \<open>AccountState(address=a, balance=b)\<close> with the dataclass defaults.\<close>

definition new_AccountState :: "string \<Rightarrow> XRP \<Rightarrow> datetime \<Rightarrow> AccountState" where
  "new_AccountState a b now =
     \<lparr>address = a, balance = b, previous_balance = None, sequence = 0, last_updated = now\<rparr>"

definition balance_change :: "AccountState \<Rightarrow> XRP option" where
  "balance_change self =
     (case previous_balance self of
        None \<Rightarrow> None
      | Some p \<Rightarrow> Some (xrp_sub (balance self) p))"

definition update_balance :: "XRP \<Rightarrow> datetime \<Rightarrow> AccountState \<Rightarrow> AccountState" where
  "update_balance new_balance now self =
     self\<lparr>previous_balance := Some (balance self),
          balance := new_balance,
          last_updated := now\<rparr>"

record TransactionState =
  tx_hash :: string
  tx_type :: string
  status :: TransactionStatus
  amount :: "XRP option"
  source :: string
  destination :: string
  fee :: "XRP option"
  ledger_index :: "int option"
  timestamp :: datetime
  error_message :: "string option"

definition mark_validated :: "int \<Rightarrow> TransactionState \<Rightarrow> TransactionState" where
  "mark_validated idx self = self\<lparr>status := VALIDATED, ledger_index := Some idx\<rparr>"

definition mark_failed :: "string \<Rightarrow> TransactionState \<Rightarrow> TransactionState" where
  "mark_failed err self = self\<lparr>status := FAILED, error_message := Some err\<rparr>"

datatype WalletSource = FAUCET | IMPORTED

text \<open>
  \<open>WalletInfo\<close> holds a wallet of the external library; only its address is kept.
  \<open>LedgerState\<close> is the ledger cursor.  No operation embedded below writes either of
  them; they are fields of the store so that the whole store is compared where an
  operation is said to change nothing.
\<close>

record WalletInfo =
  wallet :: string
  wallet_source :: WalletSource
  label :: string
  created_at :: datetime

record LedgerState =
  cursor_index :: int
  ledger_hash :: string
  close_time :: "datetime option"
  txn_count :: int
  reserve_base :: XRP
  reserve_increment :: XRP


section \<open>The state store (state/store.py)\<close>

record XRPLStateStore =
  connection_status :: string
  ledger :: LedgerState
  wallets :: "string \<rightharpoonup> WalletInfo"
  accounts :: "string \<rightharpoonup> AccountState"
  recent_transactions :: "TransactionState list"
  pending_transactions :: "TransactionState list"
  max_recent_transactions :: int

text \<open>
  \<open>XRPLStateStore()\<close> with every default: the reserves are \<open>XRP.from_xrp(10)\<close> and
  \<open>XRP.from_xrp(2)\<close>, that is 10000000 and 2000000 drops.
\<close>

definition empty_store :: XRPLStateStore where
  "empty_store =
     \<lparr>connection_status = ''disconnected'',
      ledger = \<lparr>cursor_index = 0, ledger_hash = [], close_time = None, txn_count = 0,
                reserve_base = XRP 10000000, reserve_increment = XRP 2000000\<rparr>,
      wallets = Map.empty,
      accounts = Map.empty,
      recent_transactions = [],
      pending_transactions = [],
      max_recent_transactions = 50\<rparr>"

subsection \<open>Python list primitives used by the store\<close>

datatype store_error = ValueError

text \<open>
  \<open>xs.remove(x)\<close> deletes the first element equal to \<open>x\<close> and raises \<open>ValueError\<close>
  when there is none.
\<close>

definition list_remove :: "'a \<Rightarrow> 'a list \<Rightarrow> store_error + 'a list" where
  "list_remove x xs = (if x \<in> set xs then Inr (remove1 x xs) else Inl ValueError)"

text \<open>
  The slice \<open>xs[:n]\<close>: the first \<open>n\<close> elements when \<open>n\<close> is not negative, and all but
  the last \<open>-n\<close> elements when it is.
\<close>

definition slice_to :: "int \<Rightarrow> 'a list \<Rightarrow> 'a list" where
  "slice_to n xs =
     (if 0 \<le> n then take (nat n) xs else take (length xs - nat (- n)) xs)"

text \<open>
  The history trim both \<open>mark_transaction_validated\<close> and \<open>add_received_transaction\<close>
  end with:
  \<^verbatim>\<open>if len(self.recent_transactions) > self.max_recent_transactions:
    self.recent_transactions = self.recent_transactions[: self.max_recent_transactions]\<close>
\<close>

definition trim_history :: "int \<Rightarrow> TransactionState list \<Rightarrow> TransactionState list" where
  "trim_history cap txs = (if int (length txs) > cap then slice_to cap txs else txs)"

subsection \<open>Account balances\<close>

definition update_account_balance ::
  "string \<Rightarrow> XRP \<Rightarrow> datetime \<Rightarrow> XRPLStateStore \<Rightarrow> XRPLStateStore" where
  "update_account_balance addr bal now self =
     (case accounts self addr of
        Some acct \<Rightarrow> self\<lparr>accounts := (accounts self)(addr \<mapsto> update_balance bal now acct)\<rparr>
      | None \<Rightarrow> self\<lparr>accounts := (accounts self)(addr \<mapsto> new_AccountState addr bal now)\<rparr>)"

subsection \<open>Transactions\<close>

text \<open>
  \<open>add_pending_transaction\<close> builds a fresh record with status \<open>PENDING\<close>, appends it to
  the pending list and returns it.  The model returns the record and the new store.
\<close>

definition new_pending ::
  "string \<Rightarrow> string \<Rightarrow> XRP option \<Rightarrow> string \<Rightarrow> string \<Rightarrow> XRP option \<Rightarrow> datetime
     \<Rightarrow> TransactionState" where
  "new_pending h ty amt src dst fe now =
     \<lparr>tx_hash = h, tx_type = ty, status = PENDING, amount = amt, source = src,
      destination = dst, fee = fe, ledger_index = None, timestamp = now,
      error_message = None\<rparr>"

definition add_pending_transaction ::
  "string \<Rightarrow> string \<Rightarrow> XRP option \<Rightarrow> string \<Rightarrow> string \<Rightarrow> XRP option \<Rightarrow> datetime
     \<Rightarrow> XRPLStateStore \<Rightarrow> TransactionState \<times> XRPLStateStore" where
  "add_pending_transaction h ty amt src dst fe now self =
     (let tx = new_pending h ty amt src dst fe now
      in (tx, self\<lparr>pending_transactions := pending_transactions self @ [tx]\<rparr>))"

text \<open>
  The loop \<open>for tx in self.pending_transactions: if tx.tx_hash == tx_hash: ...; return\<close>
  acts on the first pending record with the hash and then leaves.  \<open>first_with_hash\<close>
  is the position of that record, \<open>None\<close> when the loop runs to its end.
\<close>

fun first_with_hash :: "string \<Rightarrow> TransactionState list \<Rightarrow> nat option" where
  "first_with_hash h [] = None"
| "first_with_hash h (tx # txs) =
     (if tx_hash tx = h then Some 0 else map_option Suc (first_with_hash h txs))"

text \<open>
  The record found is an object held by the pending list, and \<open>tx.mark_validated\<close>
  changes it in place: the list then holds the changed record at the same position.
  \<open>self.pending_transactions.remove(tx)\<close> searches that list for the changed record,
  \<open>self.recent_transactions.insert(0, tx)\<close> puts it in front of the history, and the
  history is trimmed.
\<close>

definition mark_transaction_validated ::
  "string \<Rightarrow> int \<Rightarrow> XRPLStateStore \<Rightarrow> store_error + XRPLStateStore" where
  "mark_transaction_validated h idx self =
     (case first_with_hash h (pending_transactions self) of
        None \<Rightarrow> Inr self
      | Some i \<Rightarrow>
          (let tx = mark_validated idx (pending_transactions self ! i);
               mutated = (pending_transactions self)[i := tx]
           in case list_remove tx mutated of
                Inl e \<Rightarrow> Inl e
              | Inr pend \<Rightarrow>
                  Inr (self\<lparr>pending_transactions := pend,
                            recent_transactions :=
                              trim_history (max_recent_transactions self)
                                (tx # recent_transactions self)\<rparr>)))"

text \<open>\<open>mark_transaction_failed\<close> has the same loop; its body ends after the insert.\<close>

definition mark_transaction_failed ::
  "string \<Rightarrow> string \<Rightarrow> XRPLStateStore \<Rightarrow> store_error + XRPLStateStore" where
  "mark_transaction_failed h err self =
     (case first_with_hash h (pending_transactions self) of
        None \<Rightarrow> Inr self
      | Some i \<Rightarrow>
          (let tx = mark_failed err (pending_transactions self ! i);
               mutated = (pending_transactions self)[i := tx]
           in case list_remove tx mutated of
                Inl e \<Rightarrow> Inl e
              | Inr pend \<Rightarrow>
                  Inr (self\<lparr>pending_transactions := pend,
                            recent_transactions := tx # recent_transactions self\<rparr>)))"

definition new_received ::
  "string \<Rightarrow> string \<Rightarrow> int \<Rightarrow> XRP option \<Rightarrow> string \<Rightarrow> string \<Rightarrow> XRP option \<Rightarrow> datetime
     \<Rightarrow> TransactionState" where
  "new_received h ty idx amt src dst fe now =
     \<lparr>tx_hash = h, tx_type = ty, status = VALIDATED, amount = amt, source = src,
      destination = dst, fee = fe, ledger_index = Some idx, timestamp = now,
      error_message = None\<rparr>"

definition add_received_transaction ::
  "string \<Rightarrow> string \<Rightarrow> int \<Rightarrow> XRP option \<Rightarrow> string \<Rightarrow> string \<Rightarrow> XRP option \<Rightarrow> datetime
     \<Rightarrow> XRPLStateStore \<Rightarrow> TransactionState \<times> XRPLStateStore" where
  "add_received_transaction h ty idx amt src dst fe now self =
     (let tx = new_received h ty idx amt src dst fe now
      in (tx, self\<lparr>recent_transactions :=
                     trim_history (max_recent_transactions self)
                       (tx # recent_transactions self)\<rparr>))"

subsection \<open>Sequences of transaction operations\<close>

text \<open>
  The four public transaction operations as data, so that a sequence of calls can be run
  against a store.  A call that raises ends the run with its error.
\<close>

datatype tx_op =
    AddPending string string "XRP option" string string "XRP option" datetime
  | MarkValidated string int
  | MarkFailed string string
  | AddReceived string string int "XRP option" string string "XRP option" datetime

fun apply_op :: "tx_op \<Rightarrow> XRPLStateStore \<Rightarrow> store_error + XRPLStateStore" where
  "apply_op (AddPending h ty amt src dst fe now) s =
     Inr (snd (add_pending_transaction h ty amt src dst fe now s))"
| "apply_op (MarkValidated h idx) s = mark_transaction_validated h idx s"
| "apply_op (MarkFailed h err) s = mark_transaction_failed h err s"
| "apply_op (AddReceived h ty idx amt src dst fe now) s =
     Inr (snd (add_received_transaction h ty idx amt src dst fe now s))"

fun run_ops :: "tx_op list \<Rightarrow> XRPLStateStore \<Rightarrow> store_error + XRPLStateStore" where
  "run_ops [] s = Inr s"
| "run_ops (x # xs) s =
     (case apply_op x s of Inl e \<Rightarrow> Inl e | Inr s' \<Rightarrow> run_ops xs s')"

subsection \<open>Properties of a store that the claims speak of\<close>

text \<open>How many records of a list carry the hash \<open>h\<close>.\<close>

definition count_hash :: "string \<Rightarrow> TransactionState list \<Rightarrow> nat" where
  "count_hash h txs = length (filter (\<lambda>t. tx_hash t = h) txs)"

text \<open>
  The outcome wanted of a validation: the call returned, the hash occurs once in the
  history and not at all among the pending records, and the record in front of the
  history carries the hash, the status \<open>VALIDATED\<close> and the ledger index.
\<close>

definition validated_once :: "string \<Rightarrow> int \<Rightarrow> store_error + XRPLStateStore \<Rightarrow> bool" where
  "validated_once h idx r =
     (case r of
        Inl e \<Rightarrow> False
      | Inr s \<Rightarrow>
          count_hash h (recent_transactions s) = 1 \<and>
          count_hash h (pending_transactions s) = 0 \<and>
          (case recent_transactions s of
             [] \<Rightarrow> False
           | t # rest \<Rightarrow> tx_hash t = h \<and> status t = VALIDATED \<and> ledger_index t = Some idx))"

text \<open>The hashes a store holds, pending records first, and the one-record-per-hash invariant.\<close>

definition held_hashes :: "XRPLStateStore \<Rightarrow> string list" where
  "held_hashes s = map tx_hash (pending_transactions s @ recent_transactions s)"

definition unique_hashes :: "XRPLStateStore \<Rightarrow> bool" where
  "unique_hashes s = distinct (held_hashes s)"

text \<open>
  A sequence of operations is fresh from a store when each of its two inserting
  operations is called with a hash that the store does not hold at the time of the call.
\<close>

fun op_fresh :: "tx_op \<Rightarrow> XRPLStateStore \<Rightarrow> bool" where
  "op_fresh (AddPending h ty amt src dst fe now) s = (h \<notin> set (held_hashes s))"
| "op_fresh (AddReceived h ty idx amt src dst fe now) s = (h \<notin> set (held_hashes s))"
| "op_fresh (MarkValidated h idx) s = True"
| "op_fresh (MarkFailed h err) s = True"

fun ops_fresh :: "tx_op list \<Rightarrow> XRPLStateStore \<Rightarrow> bool" where
  "ops_fresh [] s = True"
| "ops_fresh (x # xs) s =
     (op_fresh x s \<and> (case apply_op x s of Inl e \<Rightarrow> True | Inr s' \<Rightarrow> ops_fresh xs s'))"

text \<open>
  Test data: the \<open>k\<close>-th received transaction, with a hash of its own (the letter T
  followed by \<open>k\<close> zeros), and a store whose history is full: fifty received
  transactions, the latest in front, and one pending payment.
\<close>

definition hash_no :: "nat \<Rightarrow> string" where
  "hash_no k = CHR ''T'' # replicate k (CHR ''0'')"

definition received_op :: "nat \<Rightarrow> tx_op" where
  "received_op k = AddReceived (hash_no k) ''Payment'' (int k) None ''rA'' ''rB'' None k"

definition received_tx :: "nat \<Rightarrow> TransactionState" where
  "received_tx k = new_received (hash_no k) ''Payment'' (int k) None ''rA'' ''rB'' None k"

definition full_store :: XRPLStateStore where
  "full_store =
     empty_store\<lparr>recent_transactions := map received_tx (rev [0..<50]),
                 pending_transactions := [new_pending ''AB'' ''Payment'' None ''rA'' ''rB'' None 50]\<rparr>"


text \<open>A sequence of calls that uses two hashes, each inserted once.\<close>

definition sample_ops :: "tx_op list" where
  "sample_ops =
     [AddPending ''AB'' ''Payment'' None ''rA'' ''rB'' None 1,
      AddPending ''CD'' ''Payment'' None ''rA'' ''rB'' None 2,
      MarkValidated ''AB'' 7,
      received_op 3,
      MarkFailed ''CD'' ''tecNO_DST'',
      MarkValidated ''AB'' 8]"


section \<open>The connection supervisor (xrpl\_client/connection.py)\<close>

datatype ConnectionState = DISCONNECTED | CONNECTING | CONNECTED | RECONNECTING

text \<open>
  Requests are objects of the xrpl-py library.  The tracker builds \<open>Subscribe\<close> and
  \<open>Unsubscribe\<close> requests with either the \<open>streams\<close> or the \<open>accounts\<close> argument, the
  other one staying \<open>None\<close>; every other request is opaque.  \<open>StreamParameter\<close> is the
  library's enumeration; the tracker names \<open>LEDGER\<close>, \<open>TRANSACTIONS\<close> and
  \<open>TRANSACTIONS_PROPOSED\<close>.
\<close>

datatype StreamParameter =
    CONSENSUS | LEDGER | MANIFESTS | PEER_STATUS | TRANSACTIONS | TRANSACTIONS_PROPOSED
  | SERVER | VALIDATIONS

datatype Request =
    Subscribe "StreamParameter list option" "string list option"
  | Unsubscribe "StreamParameter list option" "string list option"
  | OtherRequest string

datatype conn_error =
    RuntimeError string
  | XRPLWebsocketException string
  | ConnectionFailure

text \<open>The error both \<open>send\<close> and \<open>request\<close> raise without an open transport.\<close>

definition NotConnected :: conn_error where
  "NotConnected = RuntimeError ''Not connected to XRPL''"

text \<open>
  A message handed to \<open>_dispatch_message\<close>: a frame read from the transport (opaque) or
  the state message \<open>{"type": "__connection_state__", "state": name}\<close>.
\<close>

datatype message = Frame string | ConnectionStateMessage ConnectionState

text \<open>
  What the supervisor does to the world outside is recorded in a trace: a request handed
  to the transport's \<open>send\<close>, a request handed to the transport's \<open>request\<close>, a call of
  \<open>asyncio.sleep\<close> with its delay, and a message handed to \<open>_dispatch_message\<close>.
\<close>

datatype event = Sent Request | Requested Request | Slept real | Dispatched message

text \<open>The transport of the library, as far as the supervisor looks at it: open or not.\<close>

record AsyncWebsocketClient =
  is_open :: bool

text \<open>
  The supervisor's fields, without their leading underscore.  The delays are Python
  floats; they are reals here, and every delay the claims speak of (1, 2, 4, 8, 16, 32,
  60, 30) is a float without rounding.  The list \<open>_message_callbacks\<close> is not a field
  of this record: the supervisor only hands messages to \<open>_dispatch_message\<close>, which is
  embedded below together with the list it walks.
  \<open>trace\<close> is the record of effects, not a field of the class.
\<close>

record XRPLConnectionManager =
  url :: string
  max_reconnect_delay :: real
  client :: "AsyncWebsocketClient option"
  state :: ConnectionState
  reconnect_delay :: real
  should_run :: bool
  pending_subscriptions :: "Request list"
  trace :: "event list"

definition is_connected :: "XRPLConnectionManager \<Rightarrow> bool" where
  "is_connected self = (case client self of None \<Rightarrow> False | Some c \<Rightarrow> is_open c)"

text \<open>
  The library's \<open>client.send\<close> raises when the socket is not open and hands the request to
  the socket otherwise.
\<close>

definition transport_send ::
  "Request \<Rightarrow> AsyncWebsocketClient \<Rightarrow> XRPLConnectionManager
     \<Rightarrow> (conn_error + unit) \<times> XRPLConnectionManager" where
  "transport_send req c self =
     (if is_open c then (Inr (), self\<lparr>trace := trace self @ [Sent req]\<rparr>)
      else (Inl (XRPLWebsocketException ''Websocket is not open''), self))"

text \<open>
  \<open>send\<close>: the check \<open>not self.is_connected or self._client is None\<close> comes first, then
  the request is remembered when \<open>track_subscription\<close> is set, then it is sent.
\<close>

definition send ::
  "Request \<Rightarrow> bool \<Rightarrow> XRPLConnectionManager \<Rightarrow> (conn_error + unit) \<times> XRPLConnectionManager"
  where
  "send req track_subscription self =
     (case client self of
        None \<Rightarrow> (Inl NotConnected, self)
      | Some c \<Rightarrow>
          if \<not> is_connected self then (Inl NotConnected, self)
          else
            (let self1 =
                   (if track_subscription
                    then self\<lparr>pending_subscriptions := pending_subscriptions self @ [req]\<rparr>
                    else self)
             in transport_send req c self1))"

text \<open>
  \<open>request\<close>: the same check, then the exchange with the node.  The answer is the
  node's; \<open>node\<close> stands for it.
\<close>

definition request ::
  "(Request \<Rightarrow> 'r) \<Rightarrow> Request \<Rightarrow> XRPLConnectionManager
     \<Rightarrow> (conn_error + 'r) \<times> XRPLConnectionManager" where
  "request node req self =
     (case client self of
        None \<Rightarrow> (Inl NotConnected, self)
      | Some c \<Rightarrow>
          if \<not> is_connected self then (Inl NotConnected, self)
          else (Inr (node req), self\<lparr>trace := trace self @ [Requested req]\<rparr>))"

definition add_subscription :: "Request \<Rightarrow> XRPLConnectionManager \<Rightarrow> XRPLConnectionManager" where
  "add_subscription req self = self\<lparr>pending_subscriptions := pending_subscriptions self @ [req]\<rparr>"

definition clear_subscriptions :: "XRPLConnectionManager \<Rightarrow> XRPLConnectionManager" where
  "clear_subscriptions self = self\<lparr>pending_subscriptions := []\<rparr>"

definition notify_state_change :: "XRPLConnectionManager \<Rightarrow> XRPLConnectionManager" where
  "notify_state_change self =
     self\<lparr>trace := trace self @ [Dispatched (ConnectionStateMessage (state self))]\<rparr>"

text \<open>
  \<open>_restore_subscriptions\<close>: each remembered request is sent if the transport is open
  at that moment.
\<close>

fun restore_loop ::
  "Request list \<Rightarrow> XRPLConnectionManager \<Rightarrow> (conn_error + unit) \<times> XRPLConnectionManager"
  where
  "restore_loop [] self = (Inr (), self)"
| "restore_loop (req # reqs) self =
     (case client self of
        None \<Rightarrow> restore_loop reqs self
      | Some c \<Rightarrow>
          if is_open c
          then (case transport_send req c self of
                  (Inl e, self1) \<Rightarrow> (Inl e, self1)
                | (Inr u, self1) \<Rightarrow> restore_loop reqs self1)
          else restore_loop reqs self)"

definition restore_subscriptions ::
  "XRPLConnectionManager \<Rightarrow> (conn_error + unit) \<times> XRPLConnectionManager" where
  "restore_subscriptions self = restore_loop (pending_subscriptions self) self"

definition disconnect :: "XRPLConnectionManager \<Rightarrow> XRPLConnectionManager" where
  "disconnect self = self\<lparr>should_run := False\<rparr>"

subsection \<open>The reconnect loop\<close>

text \<open>
  What the network does during one call of \<open>_connect_once\<close> is an input of the model:
  opening the transport raises (\<open>OpenFails\<close>), or it succeeds, some frames arrive, and
  the iteration over the transport then ends by an exception (\<open>Dropped\<close>) or by the
  transport closing (\<open>Closed\<close>).  The flag that comes with an attempt says whether
  \<open>disconnect\<close> was called while the attempt was waiting on the network.
\<close>

datatype ending = Dropped | Closed

datatype attempt = OpenFails | Opened "string list" ending

definition sleep :: "real \<Rightarrow> XRPLConnectionManager \<Rightarrow> XRPLConnectionManager" where
  "sleep delay self = self\<lparr>trace := trace self @ [Slept delay]\<rparr>"

text \<open>
  The loop \<open>async for message in client\<close>: it leaves by \<open>break\<close> once \<open>_should_run\<close> is
  false, and dispatches the frame otherwise.
\<close>

fun read_frames :: "string list \<Rightarrow> XRPLConnectionManager \<Rightarrow> bool \<times> XRPLConnectionManager" where
  "read_frames [] self = (False, self)"
| "read_frames (f # fs) self =
     (if \<not> should_run self then (True, self)
      else read_frames fs (self\<lparr>trace := trace self @ [Dispatched (Frame f)]\<rparr>))"

text \<open>
  \<open>_connect_once\<close>.  An exception inside the \<open>async with\<close> block closes the transport
  and skips the final \<open>self._client = None\<close>, so the field keeps the closed transport.
\<close>

definition connect_once ::
  "attempt \<Rightarrow> bool \<Rightarrow> XRPLConnectionManager \<Rightarrow> (conn_error + unit) \<times> XRPLConnectionManager"
  where
  "connect_once a stop self =
     (let self1 = notify_state_change (self\<lparr>state := CONNECTING\<rparr>)
      in case a of
           OpenFails \<Rightarrow>
             (Inl ConnectionFailure, (if stop then disconnect self1 else self1))
         | Opened frames e \<Rightarrow>
             (let self2 = notify_state_change
                            (self1\<lparr>client := Some \<lparr>is_open = True\<rparr>,
                                   state := CONNECTED,
                                   reconnect_delay := 1\<rparr>)
              in case restore_subscriptions self2 of
                   (Inl err, self3) \<Rightarrow>
                     (Inl err, self3\<lparr>client := Some \<lparr>is_open = False\<rparr>\<rparr>)
                 | (Inr u, self3) \<Rightarrow>
                     (case read_frames frames self3 of
                        (True, self4) \<Rightarrow> (Inr (), self4\<lparr>client := None\<rparr>)
                      | (False, self4) \<Rightarrow>
                          (let self5 = (if stop then disconnect self4 else self4)
                           in case e of
                                Dropped \<Rightarrow>
                                  (Inl ConnectionFailure,
                                   self5\<lparr>client := Some \<lparr>is_open = False\<rparr>\<rparr>)
                              | Closed \<Rightarrow> (Inr (), self5\<lparr>client := None\<rparr>)))))"

text \<open>The handler of the loop: announce \<open>RECONNECTING\<close>, sleep, double the delay up to the maximum.\<close>

definition backoff :: "XRPLConnectionManager \<Rightarrow> XRPLConnectionManager" where
  "backoff self =
     (let self1 = notify_state_change (self\<lparr>state := RECONNECTING\<rparr>);
          self2 = sleep (reconnect_delay self1) self1
      in self2\<lparr>reconnect_delay :=
                 min (reconnect_delay self2 * 2) (max_reconnect_delay self2)\<rparr>)"

text \<open>What follows the loop: the state \<open>DISCONNECTED\<close> is set and announced.\<close>

definition leave :: "XRPLConnectionManager \<Rightarrow> XRPLConnectionManager" where
  "leave self = notify_state_change (self\<lparr>state := DISCONNECTED\<rparr>)"

text \<open>
  The loop \<open>while self._should_run\<close> of \<open>connect\<close>, run against a finite script of
  attempts.  The loop itself has no bound; when the script is used up and the loop would
  go on, the supervisor is returned as it stands at that moment, so the result is what
  the loop has done so far.
\<close>

fun connect_loop :: "(attempt \<times> bool) list \<Rightarrow> XRPLConnectionManager \<Rightarrow> XRPLConnectionManager"
  where
  "connect_loop [] self = (if \<not> should_run self then leave self else self)"
| "connect_loop ((a, stop) # script) self =
     (if \<not> should_run self then leave self
      else case connect_once a stop self of
             (Inr u, self1) \<Rightarrow> connect_loop script self1
           | (Inl e, self1) \<Rightarrow>
               if \<not> should_run self1 then leave self1
               else connect_loop script (backoff self1))"

definition connect :: "(attempt \<times> bool) list \<Rightarrow> XRPLConnectionManager \<Rightarrow> XRPLConnectionManager"
  where
  "connect script self = connect_loop script (self\<lparr>should_run := True, reconnect_delay := 1\<rparr>)"

text \<open>
  What an attempt that opens the transport adds to the trace while it runs: the two
  state messages, every remembered subscription, and the frames.
\<close>

definition opened_trace :: "string list \<Rightarrow> XRPLConnectionManager \<Rightarrow> event list" where
  "opened_trace frames self =
     [Dispatched (ConnectionStateMessage CONNECTING),
      Dispatched (ConnectionStateMessage CONNECTED)]
     @ map Sent (pending_subscriptions self)
     @ map (\<lambda>f. Dispatched (Frame f)) frames"

text \<open>The delays slept, in order, read off a trace.\<close>

fun sleeps :: "event list \<Rightarrow> real list" where
  "sleeps [] = []"
| "sleeps (Slept d # es) = d # sleeps es"
| "sleeps (Sent r # es) = sleeps es"
| "sleeps (Requested r # es) = sleeps es"
| "sleeps (Dispatched m # es) = sleeps es"

text \<open>A script of \<open>n\<close> attempts that fail to open, with no call of \<open>disconnect\<close>.\<close>

definition failures :: "nat \<Rightarrow> (attempt \<times> bool) list" where
  "failures n = replicate n (OpenFails, False)"

text \<open>The delay the specification gives for the \<open>k\<close>-th failure in a row, counted from 0.\<close>

definition backoff_delay :: "real \<Rightarrow> nat \<Rightarrow> real" where
  "backoff_delay cap k = min (2 ^ k) cap"

text \<open>A supervisor as the dataclass builds it, with the default maximum delay.\<close>

definition new_manager :: XRPLConnectionManager where
  "new_manager =
     \<lparr>url = ''wss://s.altnet.rippletest.net:51233'',
      max_reconnect_delay = 30,
      client = None,
      state = DISCONNECTED,
      reconnect_delay = 1,
      should_run = False,
      pending_subscriptions = [],
      trace = []\<rparr>"

text \<open>The same supervisor with an open transport, as it is inside a running connection.\<close>

definition open_manager :: XRPLConnectionManager where
  "open_manager =
     new_manager\<lparr>client := Some \<lparr>is_open = True\<rparr>, state := CONNECTED, should_run := True\<rparr>"

text \<open>The events a run has added to the trace since an earlier moment of the same run.\<close>

definition new_events :: "XRPLConnectionManager \<Rightarrow> XRPLConnectionManager \<Rightarrow> event list" where
  "new_events before after = drop (length (trace before)) (trace after)"

text \<open>
  Test data: an open supervisor that remembers a subscription to the ledger stream and
  one to an account.
\<close>

definition ledger_request :: Request where
  "ledger_request = Subscribe (Some [LEDGER]) None"

definition account_request :: Request where
  "account_request = Subscribe None (Some [''rA''])"

definition replay_manager :: XRPLConnectionManager where
  "replay_manager = open_manager\<lparr>pending_subscriptions := [ledger_request, account_request]\<rparr>"

subsection \<open>Dispatch to the callbacks\<close>














section \<open>The subscription tracker (xrpl\_client/subscriptions.py)\<close>

text \<open>
  The tracker holds a reference to the supervisor.  In the model the supervisor is a
  field of the tracker and every operation returns the tracker with the supervisor as
  the operation left it.  An operation returns its error, if it raised, next to the
  tracker: the changes made before the exception stay.
\<close>

record SubscriptionManager =
  connection :: XRPLConnectionManager
  subscribed_streams :: "StreamParameter set"
  subscribed_accounts :: "string set"

definition new_tracker :: "XRPLConnectionManager \<Rightarrow> SubscriptionManager" where
  "new_tracker conn = \<lparr>connection = conn, subscribed_streams = {}, subscribed_accounts = {}\<rparr>"

definition subscribe_stream ::
  "StreamParameter \<Rightarrow> SubscriptionManager \<Rightarrow> (conn_error + unit) \<times> SubscriptionManager" where
  "subscribe_stream stream self =
     (if stream \<in> subscribed_streams self then (Inr (), self)
      else case send (Subscribe (Some [stream]) None) True (connection self) of
             (Inl e, conn) \<Rightarrow> (Inl e, self\<lparr>connection := conn\<rparr>)
           | (Inr u, conn) \<Rightarrow>
               (Inr (), self\<lparr>connection := conn,
                             subscribed_streams := insert stream (subscribed_streams self)\<rparr>))"

definition unsubscribe_stream ::
  "StreamParameter \<Rightarrow> SubscriptionManager \<Rightarrow> (conn_error + unit) \<times> SubscriptionManager" where
  "unsubscribe_stream stream self =
     (if stream \<notin> subscribed_streams self then (Inr (), self)
      else case send (Unsubscribe (Some [stream]) None) False (connection self) of
             (Inl e, conn) \<Rightarrow> (Inl e, self\<lparr>connection := conn\<rparr>)
           | (Inr u, conn) \<Rightarrow>
               (Inr (), self\<lparr>connection := conn,
                             subscribed_streams := subscribed_streams self - {stream}\<rparr>))"

definition subscribe_accounts ::
  "string list \<Rightarrow> SubscriptionManager \<Rightarrow> (conn_error + unit) \<times> SubscriptionManager" where
  "subscribe_accounts addresses self =
     (let new_addresses = filter (\<lambda>addr. addr \<notin> subscribed_accounts self) addresses
      in if new_addresses = [] then (Inr (), self)
         else case send (Subscribe None (Some new_addresses)) True (connection self) of
                (Inl e, conn) \<Rightarrow> (Inl e, self\<lparr>connection := conn\<rparr>)
              | (Inr u, conn) \<Rightarrow>
                  (Inr (), self\<lparr>connection := conn,
                                subscribed_accounts :=
                                  subscribed_accounts self \<union> set new_addresses\<rparr>))"

definition subscribe_account ::
  "string \<Rightarrow> SubscriptionManager \<Rightarrow> (conn_error + unit) \<times> SubscriptionManager" where
  "subscribe_account addr self = subscribe_accounts [addr] self"

definition unsubscribe_account ::
  "string \<Rightarrow> SubscriptionManager \<Rightarrow> (conn_error + unit) \<times> SubscriptionManager" where
  "unsubscribe_account addr self =
     (if addr \<notin> subscribed_accounts self then (Inr (), self)
      else case send (Unsubscribe None (Some [addr])) False (connection self) of
             (Inl e, conn) \<Rightarrow> (Inl e, self\<lparr>connection := conn\<rparr>)
           | (Inr u, conn) \<Rightarrow>
               (Inr (), self\<lparr>connection := conn,
                             subscribed_accounts := subscribed_accounts self - {addr}\<rparr>))"

text \<open>
  \<open>unsubscribe_all\<close> sends \<open>list(self._subscribed_streams)\<close> and
  \<open>list(self._subscribed_accounts)\<close>.  Python does not fix the order in which a set is
  listed; the two listings are arguments of the model.
\<close>

definition unsubscribe_all_streams ::
  "(StreamParameter set \<Rightarrow> StreamParameter list) \<Rightarrow> SubscriptionManager
     \<Rightarrow> (conn_error + unit) \<times> SubscriptionManager" where
  "unsubscribe_all_streams list_streams self =
     (if subscribed_streams self \<noteq> {}
      then case send (Unsubscribe (Some (list_streams (subscribed_streams self))) None) False
                  (connection self) of
             (Inl e, conn) \<Rightarrow> (Inl e, self\<lparr>connection := conn\<rparr>)
           | (Inr u, conn) \<Rightarrow> (Inr (), self\<lparr>connection := conn, subscribed_streams := {}\<rparr>)
      else (Inr (), self))"

definition unsubscribe_all_accounts ::
  "(string set \<Rightarrow> string list) \<Rightarrow> SubscriptionManager
     \<Rightarrow> (conn_error + unit) \<times> SubscriptionManager" where
  "unsubscribe_all_accounts list_accounts self =
     (if subscribed_accounts self \<noteq> {}
      then case send (Unsubscribe None (Some (list_accounts (subscribed_accounts self)))) False
                  (connection self) of
             (Inl e, conn) \<Rightarrow> (Inl e, self\<lparr>connection := conn\<rparr>)
           | (Inr u, conn) \<Rightarrow> (Inr (), self\<lparr>connection := conn, subscribed_accounts := {}\<rparr>)
      else (Inr (), self))"

definition unsubscribe_all ::
  "(StreamParameter set \<Rightarrow> StreamParameter list) \<Rightarrow> (string set \<Rightarrow> string list)
     \<Rightarrow> SubscriptionManager \<Rightarrow> (conn_error + unit) \<times> SubscriptionManager" where
  "unsubscribe_all list_streams list_accounts self =
     (case unsubscribe_all_streams list_streams self of
        (Inl e, self1) \<Rightarrow> (Inl e, self1)
      | (Inr u, self1) \<Rightarrow>
          (case unsubscribe_all_accounts list_accounts self1 of
             (Inl e, self2) \<Rightarrow> (Inl e, self2)
           | (Inr v, self2) \<Rightarrow>
               (Inr (), self2\<lparr>connection := clear_subscriptions (connection self2)\<rparr>)))"


text \<open>
  Test data: a tracker subscribed to the ledger stream and to that account over that
  supervisor, and the two ways the model lists its sets.
\<close>

definition ledger_tracker :: SubscriptionManager where
  "ledger_tracker =
     \<lparr>connection = replay_manager, subscribed_streams = {LEDGER},
      subscribed_accounts = {''rA''}\<rparr>"

definition list_ledger :: "StreamParameter set \<Rightarrow> StreamParameter list" where
  "list_ledger streams = [LEDGER]"

definition list_account :: "string set \<Rightarrow> string list" where
  "list_account addrs = [''rA'']"


section \<open>The store: finding and moving a pending record\<close>

lemma first_with_hash_None:
  "first_with_hash h txs = None \<longleftrightarrow> h \<notin> tx_hash ` set txs"
  by (induction txs) auto

lemma first_with_hash_Some:
  "first_with_hash h txs = Some i \<Longrightarrow>
     \<exists>pre t post. txs = pre @ t # post \<and> length pre = i \<and> tx_hash t = h
        \<and> h \<notin> tx_hash ` set pre"
proof (induction txs arbitrary: i)
  case Nil
  then show ?case by simp
next
  case (Cons a txs)
  show ?case
  proof (cases "tx_hash a = h")
    case True
    with Cons.prems have "i = 0" by simp
    with True show ?thesis by (intro exI[of _ "[]"] exI[of _ a] exI[of _ txs]) simp
  next
    case False
    with Cons.prems obtain j where j: "first_with_hash h txs = Some j" "i = Suc j"
      by auto
    from Cons.IH[OF j(1)] obtain pre t post where
      "txs = pre @ t # post" "length pre = j" "tx_hash t = h" "h \<notin> tx_hash ` set pre"
      by blast
    with False j(2) show ?thesis
      by (intro exI[of _ "a # pre"] exI[of _ t] exI[of _ post]) auto
  qed
qed

lemma first_with_hash_split:
  assumes "tx_hash t = h" "h \<notin> tx_hash ` set pre"
  shows "first_with_hash h (pre @ t # post) = Some (length pre)"
  using assms by (induction pre) auto

lemma list_remove_split:
  "x \<notin> set pre \<Longrightarrow> list_remove x (pre @ x # post) = Inr (pre @ post)"
  by (simp add: list_remove_def remove1_append)

lemma tx_hash_mark_validated: "tx_hash (mark_validated idx t) = tx_hash t"
  by (simp add: mark_validated_def)

lemma tx_hash_mark_failed: "tx_hash (mark_failed err t) = tx_hash t"
  by (simp add: mark_failed_def)

text \<open>
  The record found is the one removed: no record before it carries the hash, so none
  before it equals the changed record.  The call returns; \<open>remove\<close> does not raise.
\<close>

lemma mark_transaction_validated_found:
  assumes "pending_transactions s = pre @ t # post" "tx_hash t = h" "h \<notin> tx_hash ` set pre"
  shows "mark_transaction_validated h idx s =
           Inr (s\<lparr>pending_transactions := pre @ post,
                  recent_transactions :=
                    trim_history (max_recent_transactions s)
                      (mark_validated idx t # recent_transactions s)\<rparr>)"
proof -
  have f: "first_with_hash h (pre @ t # post) = Some (length pre)"
    using assms(2,3) by (rule first_with_hash_split)
  have n: "mark_validated idx t \<notin> set pre"
    using assms(2,3) tx_hash_mark_validated by (metis image_eqI)
  show ?thesis
    using f list_remove_split[OF n]
    by (simp add: mark_transaction_validated_def assms(1) Let_def)
qed

lemma mark_transaction_failed_found:
  assumes "pending_transactions s = pre @ t # post" "tx_hash t = h" "h \<notin> tx_hash ` set pre"
  shows "mark_transaction_failed h err s =
           Inr (s\<lparr>pending_transactions := pre @ post,
                  recent_transactions := mark_failed err t # recent_transactions s\<rparr>)"
proof -
  have f: "first_with_hash h (pre @ t # post) = Some (length pre)"
    using assms(2,3) by (rule first_with_hash_split)
  have n: "mark_failed err t \<notin> set pre"
    using assms(2,3) tx_hash_mark_failed by (metis image_eqI)
  show ?thesis
    using f list_remove_split[OF n]
    by (simp add: mark_transaction_failed_def assms(1) Let_def)
qed

lemma count_hash_absent: "h \<notin> tx_hash ` set txs \<Longrightarrow> count_hash h txs = 0"
  by (induction txs) (auto simp: count_hash_def)

lemma count_hash_take: "count_hash h txs = 0 \<Longrightarrow> count_hash h (take n txs) = 0"
  unfolding count_hash_def
  by (metis filter_empty_conv in_set_takeD length_0_conv)

lemma slice_to_Cons:
  "1 \<le> cap \<Longrightarrow> slice_to cap (t # txs) = t # take (nat cap - 1) txs"
  by (simp add: slice_to_def take_Cons')

lemma trim_history_Cons:
  "1 \<le> cap \<Longrightarrow> \<exists>n. trim_history cap (t # txs) = t # take n txs"
proof (cases "int (length (t # txs)) > cap")
  case True
  assume "1 \<le> cap"
  with True show ?thesis
    unfolding trim_history_def using slice_to_Cons[of cap t txs] by auto
next
  case False
  then have "trim_history cap (t # txs) = t # take (length txs) txs"
    by (simp add: trim_history_def)
  then show ?thesis by blast
qed

lemma trim_history_take: "\<exists>k. trim_history cap txs = take k txs"
proof (cases "int (length txs) > cap")
  case True
  then show ?thesis unfolding trim_history_def slice_to_def by auto
next
  case False
  then have "trim_history cap txs = take (length txs) txs"
    by (simp add: trim_history_def)
  then show ?thesis by blast
qed


section \<open>Claims about the store\<close>

text \<open>
  Claim C1, as the code has it.  Take a store in which the hash \<open>h\<close> is carried by no
  pending record and by no record of the history, and whose capacity is at least 1.
  After \<open>add_pending_transaction\<close> with hash \<open>h\<close> and then \<open>mark_transaction_validated\<close>
  with \<open>h\<close> and a ledger index, the call has returned, \<open>h\<close> occurs exactly once in
  \<open>recent_transactions\<close>, there in front, and not at all in \<open>pending_transactions\<close>; the
  record has status \<open>VALIDATED\<close> and the ledger index given.
\<close>

theorem add_pending_then_validated:
  assumes "h \<notin> tx_hash ` set (pending_transactions s)"
    and "h \<notin> tx_hash ` set (recent_transactions s)"
    and "1 \<le> max_recent_transactions s"
  shows "validated_once h idx
           (mark_transaction_validated h idx
              (snd (add_pending_transaction h ty amt src dst fe now s)))"
proof -
  let ?tx = "new_pending h ty amt src dst fe now"
  let ?s1 = "snd (add_pending_transaction h ty amt src dst fe now s)"
  have p1: "pending_transactions ?s1 = pending_transactions s @ ?tx # []"
    and r1: "recent_transactions ?s1 = recent_transactions s"
    and m1: "max_recent_transactions ?s1 = max_recent_transactions s"
    by (simp_all add: add_pending_transaction_def Let_def)
  have hx: "tx_hash ?tx = h" by (simp add: new_pending_def)
  obtain n where n: "trim_history (max_recent_transactions s)
                       (mark_validated idx ?tx # recent_transactions s)
                     = mark_validated idx ?tx # take n (recent_transactions s)"
    using trim_history_Cons[OF assms(3)] by blast
  have res: "mark_transaction_validated h idx ?s1 =
          Inr (?s1\<lparr>pending_transactions := pending_transactions s @ [],
                    recent_transactions :=
                      mark_validated idx ?tx # take n (recent_transactions s)\<rparr>)"
    using mark_transaction_validated_found[OF p1 hx assms(1)] n by (simp add: r1 m1)
  have c0: "count_hash h (take n (recent_transactions s)) = 0"
    using count_hash_take[OF count_hash_absent[OF assms(2)]] .
  have c1: "count_hash h (mark_validated idx ?tx # take n (recent_transactions s)) = 1"
    using c0 hx by (simp add: count_hash_def tx_hash_mark_validated)
  have c2: "count_hash h (pending_transactions s) = 0"
    using count_hash_absent[OF assms(1)] .
  show ?thesis
    unfolding res validated_once_def using c1 c2 hx
    by (simp add: mark_validated_def)
qed

theorem add_pending_then_validated_witness:
  "''AB'' \<notin> tx_hash ` set (pending_transactions empty_store)
   \<and> ''AB'' \<notin> tx_hash ` set (recent_transactions empty_store)
   \<and> 1 \<le> max_recent_transactions empty_store
   \<and> validated_once ''AB'' 7
       (mark_transaction_validated ''AB'' 7
          (snd (add_pending_transaction ''AB'' ''Payment'' None ''rA'' ''rB'' None 1
             empty_store)))"
proof -
  have a: "''AB'' \<notin> tx_hash ` set (pending_transactions empty_store)"
    and b: "''AB'' \<notin> tx_hash ` set (recent_transactions empty_store)"
    and c: "1 \<le> max_recent_transactions empty_store"
    by (simp_all add: empty_store_def)
  from add_pending_then_validated[OF a b c] a b c show ?thesis by blast
qed

text \<open>
  Claim C1 as it is written, for every store, fails.  In a store that already holds a
  pending record with the hash, the earlier record is the one validated and the new one
  stays pending.
\<close>

theorem duplicate_pending_counterexample:
  "\<not> validated_once ''AB'' 7
     (mark_transaction_validated ''AB'' 7
        (snd (add_pending_transaction ''AB'' ''Payment'' None ''rA'' ''rB'' None 2
           (snd (add_pending_transaction ''AB'' ''Payment'' None ''rA'' ''rB'' None 1
              empty_store)))))"
  by (simp add: validated_once_def mark_transaction_validated_def add_pending_transaction_def
      empty_store_def new_pending_def list_remove_def mark_validated_def trim_history_def
      count_hash_def Let_def)

text \<open>
  Claim C6.  When no pending record carries the hash \<open>h\<close>, \<open>mark_transaction_validated\<close>
  and \<open>mark_transaction_failed\<close> return without raising and return the store they were
  given, whatever the history holds.
\<close>

theorem mark_not_pending_is_noop:
  assumes "h \<notin> tx_hash ` set (pending_transactions s)"
  shows "mark_transaction_validated h idx s = Inr s \<and> mark_transaction_failed h err s = Inr s"
  using assms first_with_hash_None[of h "pending_transactions s"]
  by (simp add: mark_transaction_validated_def mark_transaction_failed_def)

text \<open>The witness: the hash is in the history of the full store, and is not pending there.\<close>

theorem mark_not_pending_is_noop_witness:
  "hash_no 3 \<notin> tx_hash ` set (pending_transactions full_store)
   \<and> received_tx 3 \<in> set (recent_transactions full_store)
   \<and> mark_transaction_validated (hash_no 3) 7 full_store = Inr full_store
   \<and> mark_transaction_failed (hash_no 3) ''tecNO_DST'' full_store = Inr full_store"
proof -
  have a: "hash_no 3 \<notin> tx_hash ` set (pending_transactions full_store)"
    by (simp add: full_store_def new_pending_def hash_no_def)
  have b: "received_tx 3 \<in> set (recent_transactions full_store)"
    by (simp add: full_store_def)
  from mark_not_pending_is_noop[OF a] a b show ?thesis by blast
qed

section \<open>The length of the history\<close>

lemma trim_history_nonneg: "0 \<le> cap \<Longrightarrow> trim_history cap txs = take (nat cap) txs"
  by (simp add: trim_history_def slice_to_def)

lemma add_received_recent:
  assumes "0 \<le> max_recent_transactions s"
  shows "snd (add_received_transaction h ty idx amt src dst fe now s) =
           s\<lparr>recent_transactions :=
                take (nat (max_recent_transactions s))
                  (new_received h ty idx amt src dst fe now # recent_transactions s)\<rparr>"
  using assms by (simp add: add_received_transaction_def Let_def trim_history_nonneg)

lemma add_received_bounded:
  assumes "0 \<le> max_recent_transactions s"
  shows "int (length (recent_transactions
           (snd (add_received_transaction h ty idx amt src dst fe now s))))
         \<le> max_recent_transactions s"
  using assms by (simp add: add_received_recent)

lemma mark_validated_bounded:
  assumes "0 \<le> max_recent_transactions s" "mark_transaction_validated h idx s = Inr s'"
    "h \<in> tx_hash ` set (pending_transactions s)"
  shows "int (length (recent_transactions s')) \<le> max_recent_transactions s"
proof -
  from assms(3) obtain i where "first_with_hash h (pending_transactions s) = Some i"
    using first_with_hash_None[of h "pending_transactions s"] by auto
  from first_with_hash_Some[OF this] obtain pre t post where
    sp: "pending_transactions s = pre @ t # post" "tx_hash t = h" "h \<notin> tx_hash ` set pre"
    by blast
  from mark_transaction_validated_found[OF sp, of idx] assms(1,2)
  show ?thesis by (auto simp: trim_history_nonneg)
qed

lemma run_received:
  assumes "0 \<le> max_recent_transactions s"
    "length (recent_transactions s) \<le> nat (max_recent_transactions s)"
  shows "run_ops (map received_op ks) s =
           Inr (s\<lparr>recent_transactions :=
                    take (nat (max_recent_transactions s))
                      (rev (map received_tx ks) @ recent_transactions s)\<rparr>)"
  using assms
proof (induction ks arbitrary: s)
  case Nil
  then show ?case by simp
next
  case (Cons k ks)
  let ?cap = "nat (max_recent_transactions s)"
  let ?s1 = "s\<lparr>recent_transactions := take ?cap (received_tx k # recent_transactions s)\<rparr>"
  have st: "apply_op (received_op k) s = Inr ?s1"
    using Cons.prems(1) by (simp add: received_op_def received_tx_def add_received_recent)
  have "run_ops (map received_op ks) ?s1 =
          Inr (?s1\<lparr>recent_transactions :=
                 take (nat (max_recent_transactions ?s1))
                   (rev (map received_tx ks) @ recent_transactions ?s1)\<rparr>)"
    using Cons.prems by (intro Cons.IH) simp_all
  moreover have "take ?cap (rev (map received_tx ks) @ take ?cap (received_tx k # recent_transactions s))
        = take ?cap (rev (map received_tx ks) @ received_tx k # recent_transactions s)"
    by (simp add: min_def)
  ultimately show ?case using st by simp
qed

lemma history_retention_60:
  "run_ops (map received_op [0..<60]) empty_store =
     Inr (empty_store\<lparr>recent_transactions := map received_tx (rev [10..<60])\<rparr>)"
proof -
  have d: "drop 10 [0..<60::nat] = [0 + 10..<60]" by (rule drop_upt)
  have l: "length [0..<60::nat] - 50 = 10" by (simp del: upt_rec_numeral)
  have "take 50 (rev [0..<60::nat]) = rev (drop (length [0..<60::nat] - 50) [0..<60])"
    by (rule take_rev)
  then have t: "take 50 (rev [0..<60::nat]) = rev [10..<60]"
    unfolding l d by (simp del: upt_rec_numeral)
  have "take 50 (rev (map received_tx [0..<60])) = map received_tx (take 50 (rev [0..<60]))"
    by (simp only: rev_map take_map)
  then have "take 50 (rev (map received_tx [0..<60])) = map received_tx (rev [10..<60])"
    unfolding t .
  then show ?thesis
    using run_received[of empty_store "[0..<60]"]
    by (simp add: empty_store_def del: upt_rec_numeral)
qed

lemma full_store_reachable:
  "run_ops (map received_op [0..<50] @ [AddPending ''AB'' ''Payment'' None ''rA'' ''rB'' None 50])
     empty_store = Inr full_store"
proof -
  have run_app: "run_ops xs s = Inr s1 \<Longrightarrow> run_ops (xs @ ys) s = run_ops ys s1" for xs ys s s1
    by (induction xs arbitrary: s) (auto split: sum.splits)
  have "run_ops (map received_op [0..<50]) empty_store =
          Inr (empty_store\<lparr>recent_transactions := map received_tx (rev [0..<50])\<rparr>)"
    using run_received[of empty_store "[0..<50]"]
    by (simp add: empty_store_def rev_map del: upt_rec_numeral)
  from run_app[OF this] show ?thesis
    by (simp add: full_store_def add_pending_transaction_def Let_def empty_store_def
        del: upt_rec_numeral)
qed

text \<open>
  Claim C2.  \<open>mark_transaction_validated\<close> and \<open>add_received_transaction\<close> trim the
  history (\<open>mark_validated_bounded\<close>, \<open>add_received_bounded\<close>), and sixty received
  transactions leave the fifty latest, the latest in front (\<open>history_retention_60\<close>).
  \<open>mark_transaction_failed\<close> does not trim: whenever it moves a record, the history is
  one longer than before, also when it was full.
\<close>

theorem mark_failed_grows_history:
  assumes "h \<in> tx_hash ` set (pending_transactions s)"
  shows "\<exists>s'. mark_transaction_failed h err s = Inr s'
           \<and> length (recent_transactions s') = Suc (length (recent_transactions s))"
proof -
  from assms obtain i where "first_with_hash h (pending_transactions s) = Some i"
    using first_with_hash_None[of h "pending_transactions s"] by auto
  from first_with_hash_Some[OF this] obtain pre t post where
    sp: "pending_transactions s = pre @ t # post" "tx_hash t = h" "h \<notin> tx_hash ` set pre"
    by blast
  from mark_transaction_failed_found[OF sp, of err] show ?thesis by simp
qed

theorem mark_failed_grows_history_witness:
  "''AB'' \<in> tx_hash ` set (pending_transactions full_store)
   \<and> max_recent_transactions full_store = 50
   \<and> length (recent_transactions full_store) = 50
   \<and> (\<exists>s'. mark_transaction_failed ''AB'' ''tecNO_DST'' full_store = Inr s'
           \<and> length (recent_transactions s') = 51)"
proof -
  have a: "''AB'' \<in> tx_hash ` set (pending_transactions full_store)"
    by (simp add: full_store_def new_pending_def)
  have b: "max_recent_transactions full_store = 50"
    by (simp add: full_store_def empty_store_def)
  have c: "length (recent_transactions full_store) = 50"
    by (simp add: full_store_def del: upt_rec_numeral)
  from mark_failed_grows_history[OF a, of "''tecNO_DST''"] c
  have "\<exists>s'. mark_transaction_failed ''AB'' ''tecNO_DST'' full_store = Inr s'
           \<and> length (recent_transactions s') = 51" by simp
  with a b c show ?thesis by blast
qed

text \<open>
  Claim C7.  \<open>update_account_balance\<close> on an account the store holds moves the balance
  into \<open>previous_balance\<close> and sets the balance given; on an address it does not hold it
  stores a new \<open>AccountState\<close> with that balance and no previous balance.  After two
  calls with \<open>b1\<close> and then \<open>b2\<close>, the previous balance is \<open>b1\<close>, the balance is \<open>b2\<close>,
  and \<open>balance_change\<close> is an amount whose drops are the drops of \<open>b2\<close> minus the drops
  of \<open>b1\<close>, as integers; \<open>from_drops\<close> makes the amount with the drops it is given.
\<close>

theorem update_account_balance_shifts:
  "(accounts s a = Some acct \<longrightarrow>
      update_account_balance a b now s =
        s\<lparr>accounts := (accounts s)(a \<mapsto>
             acct\<lparr>previous_balance := Some (balance acct), balance := b, last_updated := now\<rparr>)\<rparr>)
   \<and> (accounts s a = None \<longrightarrow>
      update_account_balance a b now s =
        s\<lparr>accounts := (accounts s)(a \<mapsto>
             \<lparr>address = a, balance = b, previous_balance = None, sequence = 0,
              last_updated = now\<rparr>)\<rparr>)
   \<and> (\<exists>acct2 d. accounts (update_account_balance a b2 now2
                      (update_account_balance a b1 now1 s)) a = Some acct2
         \<and> previous_balance acct2 = Some b1 \<and> balance acct2 = b2
         \<and> balance_change acct2 = Some d
         \<and> d = XRP (drops b2 - drops b1)
         \<and> drops d = drops b2 - drops b1)
   \<and> drops (from_drops n) = n
   \<and> drops (xrp_sub x y) = drops x - drops y"
  by (cases "accounts s a")
     (simp_all add: update_account_balance_def update_balance_def new_AccountState_def
        balance_change_def xrp_sub_def from_drops_def)

theorem update_account_balance_shifts_witness:
  "accounts empty_store ''rA'' = None
   \<and> update_account_balance ''rA'' (from_drops 100000000) 1 empty_store =
       empty_store\<lparr>accounts := (accounts empty_store)(''rA'' \<mapsto>
             \<lparr>address = ''rA'', balance = from_drops 100000000, previous_balance = None,
              sequence = 0, last_updated = 1\<rparr>)\<rparr>
   \<and> drops (from_drops 100000000) = 100000000
   \<and> drops (from_drops 100500000) = 100500000
   \<and> (\<exists>acct2 d. accounts (update_account_balance ''rA'' (from_drops 100500000) 2
                      (update_account_balance ''rA'' (from_drops 100000000) 1 empty_store))
                    ''rA'' = Some acct2
         \<and> previous_balance acct2 = Some (from_drops 100000000)
         \<and> balance acct2 = from_drops 100500000
         \<and> balance_change acct2 = Some d
         \<and> d = XRP 500000
         \<and> drops d = 500000)"
proof -
  have absent: "accounts empty_store ''rA'' = None"
    by (simp add: empty_store_def)
  note th = update_account_balance_shifts[where s = empty_store and a = "''rA''"
      and b = "from_drops 100000000" and now = 1 and ?b1.0 = "from_drops 100000000"
      and ?now1.0 = 1 and ?b2.0 = "from_drops 100500000" and ?now2.0 = 2]
  have d1: "drops (from_drops 100000000) = 100000000"
    using th[where n = 100000000] by blast
  have d2: "drops (from_drops 100500000) = 100500000"
    using th[where n = 100500000] by blast
  have delta: "drops (from_drops 100500000) - drops (from_drops 100000000) = 500000"
    unfolding d1 d2 by simp
  from absent th[unfolded delta] d1 d2 show ?thesis by blast
qed


section \<open>One record per hash\<close>

lemma distinct_hash_take:
  assumes "distinct (map f (ps @ ys))"
  shows "distinct (map f (ps @ take k ys))"
proof -
  have "set (take k ys) \<subseteq> set ys" by (rule set_take_subset)
  moreover have "distinct (map f (take k ys))"
    using assms by (simp add: take_map[symmetric])
  ultimately show ?thesis using assms by auto
qed

lemma unique_add_pending:
  assumes "unique_hashes s" "h \<notin> set (held_hashes s)"
  shows "unique_hashes (snd (add_pending_transaction h ty amt src dst fe now s))"
  using assms
  by (auto simp: unique_hashes_def held_hashes_def add_pending_transaction_def Let_def
      new_pending_def)

lemma unique_add_received:
  assumes "unique_hashes s" "h \<notin> set (held_hashes s)"
  shows "unique_hashes (snd (add_received_transaction h ty idx amt src dst fe now s))"
proof -
  let ?tx = "new_received h ty idx amt src dst fe now"
  obtain k where k: "trim_history (max_recent_transactions s) (?tx # recent_transactions s)
                       = take k (?tx # recent_transactions s)"
    using trim_history_take by blast
  have "distinct (map tx_hash (pending_transactions s @ ?tx # recent_transactions s))"
    using assms by (auto simp: unique_hashes_def held_hashes_def new_received_def)
  then have "distinct (map tx_hash (pending_transactions s @ take k (?tx # recent_transactions s)))"
    by (rule distinct_hash_take)
  then show ?thesis
    by (simp add: unique_hashes_def held_hashes_def add_received_transaction_def Let_def k)
qed

lemma unique_mark_validated:
  assumes "unique_hashes s"
  shows "\<exists>s'. mark_transaction_validated h idx s = Inr s' \<and> unique_hashes s'"
proof (cases "first_with_hash h (pending_transactions s)")
  case None
  then show ?thesis using assms by (simp add: mark_transaction_validated_def)
next
  case (Some i)
  from first_with_hash_Some[OF Some] obtain pre t post where
    sp: "pending_transactions s = pre @ t # post" "tx_hash t = h" "h \<notin> tx_hash ` set pre"
    by blast
  let ?t = "mark_validated idx t"
  obtain k where k: "trim_history (max_recent_transactions s) (?t # recent_transactions s)
                       = take k (?t # recent_transactions s)"
    using trim_history_take by blast
  have "distinct (map tx_hash ((pre @ post) @ ?t # recent_transactions s))"
    using assms sp by (auto simp: unique_hashes_def held_hashes_def tx_hash_mark_validated)
  then have d: "distinct (map tx_hash ((pre @ post) @ take k (?t # recent_transactions s)))"
    by (rule distinct_hash_take)
  have "unique_hashes (s\<lparr>pending_transactions := pre @ post,
           recent_transactions := take k (?t # recent_transactions s)\<rparr>)"
    unfolding unique_hashes_def held_hashes_def using d by simp
  then show ?thesis
    using mark_transaction_validated_found[OF sp, of idx] k by simp
qed

lemma unique_mark_failed:
  assumes "unique_hashes s"
  shows "\<exists>s'. mark_transaction_failed h err s = Inr s' \<and> unique_hashes s'"
proof (cases "first_with_hash h (pending_transactions s)")
  case None
  then show ?thesis using assms by (simp add: mark_transaction_failed_def)
next
  case (Some i)
  from first_with_hash_Some[OF Some] obtain pre t post where
    sp: "pending_transactions s = pre @ t # post" "tx_hash t = h" "h \<notin> tx_hash ` set pre"
    by blast
  have d: "distinct (map tx_hash ((pre @ post) @ mark_failed err t # recent_transactions s))"
    using assms sp by (auto simp: unique_hashes_def held_hashes_def tx_hash_mark_failed)
  have "unique_hashes (s\<lparr>pending_transactions := pre @ post,
           recent_transactions := mark_failed err t # recent_transactions s\<rparr>)"
    unfolding unique_hashes_def held_hashes_def using d by simp
  then show ?thesis
    using mark_transaction_failed_found[OF sp, of err] by simp
qed

lemma unique_apply_op:
  assumes "unique_hashes s" "op_fresh x s"
  shows "\<exists>s'. apply_op x s = Inr s' \<and> unique_hashes s'"
  using assms
  by (cases x)
     (simp_all add: unique_add_pending unique_add_received unique_mark_validated
        unique_mark_failed)

text \<open>
  Claim C8, as the code has it.  From a store in which no hash occurs twice across the
  pending records and the history (the empty store is one), every sequence of the four
  transaction operations in which \<open>add_pending_transaction\<close> and
  \<open>add_received_transaction\<close> are only called with a hash the store does not hold at
  that moment runs to its end and leaves a store in which no hash occurs twice.
\<close>

theorem fresh_hashes_stay_unique:
  assumes "unique_hashes s" "ops_fresh xs s"
  shows "\<exists>s'. run_ops xs s = Inr s' \<and> unique_hashes s'"
  using assms
proof (induction xs arbitrary: s)
  case Nil
  then show ?case by simp
next
  case (Cons x xs)
  from Cons.prems obtain s1 where s1: "apply_op x s = Inr s1" "unique_hashes s1"
    using unique_apply_op[of s x] by auto
  with Cons.prems have "ops_fresh xs s1" by simp
  from Cons.IH[OF s1(2) this] s1(1) show ?case by simp
qed

theorem fresh_hashes_stay_unique_witness:
  "unique_hashes empty_store \<and> ops_fresh sample_ops empty_store
   \<and> (\<exists>s'. run_ops sample_ops empty_store = Inr s' \<and> unique_hashes s')"
proof -
  have a: "unique_hashes empty_store"
    by (simp add: unique_hashes_def held_hashes_def empty_store_def)
  have b: "ops_fresh sample_ops empty_store"
    by (simp add: sample_ops_def received_op_def hash_no_def held_hashes_def
        add_pending_transaction_def add_received_transaction_def
        mark_transaction_validated_def mark_transaction_failed_def list_remove_def
        new_pending_def new_received_def mark_validated_def mark_failed_def
        trim_history_def empty_store_def Let_def)
  from fresh_hashes_stay_unique[OF a b] a b show ?thesis by blast
qed

text \<open>
  Claim C8 as it is written fails: neither inserting operation looks for the hash, and
  two calls of \<open>add_pending_transaction\<close> with one hash leave two pending records.
\<close>

theorem repeated_hash_counterexample:
  "map_sum id unique_hashes
     (run_ops [AddPending ''AB'' ''Payment'' None ''rA'' ''rB'' None 1,
               AddPending ''AB'' ''Payment'' None ''rA'' ''rB'' None 2] empty_store)
   = Inr False"
  by (simp add: unique_hashes_def held_hashes_def add_pending_transaction_def empty_store_def
      new_pending_def Let_def)


section \<open>The reconnect loop: what one attempt does\<close>

lemma sleeps_append: "sleeps (es @ fs) = sleeps es @ sleeps fs"
  by (induction es rule: sleeps.induct) simp_all

lemma connect_once_OpenFails:
  "connect_once OpenFails False self =
     (Inl ConnectionFailure, notify_state_change (self\<lparr>state := CONNECTING\<rparr>))"
  by (simp add: connect_once_def Let_def)

lemma backoff_fields:
  "should_run (backoff self) = should_run self"
  "max_reconnect_delay (backoff self) = max_reconnect_delay self"
  "reconnect_delay (backoff self) = min (reconnect_delay self * 2) (max_reconnect_delay self)"
  "sleeps (trace (backoff self)) = sleeps (trace self) @ [reconnect_delay self]"
  "pending_subscriptions (backoff self) = pending_subscriptions self"
  by (simp_all add: backoff_def sleep_def notify_state_change_def Let_def sleeps_append)

lemma notify_fields:
  "should_run (notify_state_change self) = should_run self"
  "max_reconnect_delay (notify_state_change self) = max_reconnect_delay self"
  "reconnect_delay (notify_state_change self) = reconnect_delay self"
  "sleeps (trace (notify_state_change self)) = sleeps (trace self)"
  "pending_subscriptions (notify_state_change self) = pending_subscriptions self"
  "client (notify_state_change self) = client self"
  by (simp_all add: notify_state_change_def sleeps_append)

lemma min_double:
  fixes d cap :: real
  assumes "0 < d" "0 < cap"
  shows "min (min (d * 2 ^ k) cap * 2) cap = min (d * 2 ^ Suc k) cap"
  using assms by (auto simp: min_def)

text \<open>
  After \<open>n\<close> failures in a row, starting with the delay \<open>min (d * 2 ^ j) cap\<close>, the
  delays slept are \<open>min (d * 2 ^ (j + k)) cap\<close> for \<open>k\<close> below \<open>n\<close>.
\<close>

lemma failures_sleeps:
  assumes "should_run self" "0 < cap" "max_reconnect_delay self = cap"
    "reconnect_delay self = min (d * 2 ^ j) cap" "0 < d"
  shows "sleeps (trace (connect_loop (failures n) self)) =
           sleeps (trace self) @ map (\<lambda>k. min (d * 2 ^ (j + k)) cap) [0..<n]"
  using assms
proof (induction n arbitrary: self j)
  case 0
  then show ?case by (simp add: failures_def)
next
  case (Suc n)
  let ?s1 = "notify_state_change (self\<lparr>state := CONNECTING\<rparr>)"
  let ?s2 = "backoff ?s1"
  have step: "connect_loop (failures (Suc n)) self = connect_loop (failures n) ?s2"
    using Suc.prems(1)
    by (simp add: failures_def connect_once_OpenFails notify_fields)
  have a: "should_run ?s2" using Suc.prems(1) by (simp add: backoff_fields notify_fields)
  have b: "max_reconnect_delay ?s2 = cap"
    using Suc.prems(3) by (simp add: backoff_fields notify_fields)
  have c: "reconnect_delay ?s2 = min (d * 2 ^ Suc j) cap"
    using Suc.prems(3,4) min_double[OF Suc.prems(5) Suc.prems(2), of j]
    by (simp add: backoff_fields notify_fields)
  have t: "sleeps (trace ?s2) = sleeps (trace self) @ [min (d * 2 ^ j) cap]"
    using Suc.prems(4) by (simp add: backoff_fields notify_fields)
  have "sleeps (trace (connect_loop (failures n) ?s2)) =
          sleeps (trace ?s2) @ map (\<lambda>k. min (d * 2 ^ (Suc j + k)) cap) [0..<n]"
    by (rule Suc.IH[OF a Suc.prems(2) b c Suc.prems(5)])
  also have "\<dots> = sleeps (trace self) @ map (\<lambda>k. min (d * 2 ^ (j + k)) cap) [0..<Suc n]"
  proof -
    have "map (\<lambda>k. min (d * 2 ^ (j + k)) cap) [0..<Suc n]
            = min (d * 2 ^ j) cap # map (\<lambda>k. min (d * 2 ^ (Suc j + k)) cap) [0..<n]"
      by (simp add: upt_rec[of 0 "Suc n"] map_Suc_upt[symmetric] del: upt_Suc)
    then show ?thesis using t by simp
  qed
  finally show ?case using step by simp
qed

lemma restore_loop_open:
  assumes "client self = Some c" "is_open c"
  shows "restore_loop reqs self = (Inr (), self\<lparr>trace := trace self @ map Sent reqs\<rparr>)"
  using assms
proof (induction reqs arbitrary: self)
  case Nil
  then show ?case by simp
next
  case (Cons r reqs)
  let ?s1 = "self\<lparr>trace := trace self @ [Sent r]\<rparr>"
  have "restore_loop (r # reqs) self = restore_loop reqs ?s1"
    using Cons.prems by (simp add: transport_send_def)
  moreover have "restore_loop reqs ?s1 = (Inr (), ?s1\<lparr>trace := trace ?s1 @ map Sent reqs\<rparr>)"
    using Cons.prems by (intro Cons.IH) simp_all
  ultimately show ?case by simp
qed

lemma read_frames_running:
  assumes "should_run self"
  shows "read_frames fs self =
           (False, self\<lparr>trace := trace self @ map (\<lambda>f. Dispatched (Frame f)) fs\<rparr>)"
  using assms
proof (induction fs arbitrary: self)
  case Nil
  then show ?case by simp
next
  case (Cons f fs)
  let ?s1 = "self\<lparr>trace := trace self @ [Dispatched (Frame f)]\<rparr>"
  have "read_frames (f # fs) self = read_frames fs ?s1"
    using Cons.prems by simp
  moreover have "read_frames fs ?s1 =
      (False, ?s1\<lparr>trace := trace ?s1 @ map (\<lambda>f. Dispatched (Frame f)) fs\<rparr>)"
    using Cons.prems by (intro Cons.IH) simp
  ultimately show ?case by simp
qed

lemma connect_once_Opened:
  assumes "should_run self"
  shows "connect_once (Opened frames e) stop self =
           ((case e of Dropped \<Rightarrow> Inl ConnectionFailure | Closed \<Rightarrow> Inr ()),
            self\<lparr>state := CONNECTED, reconnect_delay := 1,
                 client := (case e of Dropped \<Rightarrow> Some \<lparr>is_open = False\<rparr> | Closed \<Rightarrow> None),
                 should_run := \<not> stop,
                 trace := trace self @ opened_trace frames self\<rparr>)"
proof -
  let ?t2 = "trace self @ [Dispatched (ConnectionStateMessage CONNECTING),
                          Dispatched (ConnectionStateMessage CONNECTED)]"
  let ?s2 = "self\<lparr>client := Some \<lparr>is_open = True\<rparr>, state := CONNECTED,
                  reconnect_delay := 1, trace := ?t2\<rparr>"
  let ?s3 = "?s2\<lparr>trace := ?t2 @ map Sent (pending_subscriptions self)\<rparr>"
  let ?s4 = "?s3\<lparr>trace := (?t2 @ map Sent (pending_subscriptions self))
                              @ map (\<lambda>f. Dispatched (Frame f)) frames\<rparr>"
  have n: "notify_state_change
             ((notify_state_change (self\<lparr>state := CONNECTING\<rparr>))
                \<lparr>client := Some \<lparr>is_open = True\<rparr>, state := CONNECTED, reconnect_delay := 1\<rparr>)
           = ?s2"
    by (simp add: notify_state_change_def)
  have "restore_loop (pending_subscriptions self) ?s2 =
          (Inr (), ?s2\<lparr>trace := trace ?s2 @ map Sent (pending_subscriptions self)\<rparr>)"
    by (rule restore_loop_open[where c = "\<lparr>is_open = True\<rparr>"]) simp_all
  then have r: "restore_subscriptions ?s2 = (Inr (), ?s3)"
    by (simp add: restore_subscriptions_def)
  have "read_frames frames ?s3 =
          (False, ?s3\<lparr>trace := trace ?s3 @ map (\<lambda>f. Dispatched (Frame f)) frames\<rparr>)"
    using assms by (intro read_frames_running) simp
  then have f: "read_frames frames ?s3 = (False, ?s4)" by simp
  have "connect_once (Opened frames e) stop self =
          (case e of
             Dropped \<Rightarrow> (Inl ConnectionFailure,
                         (if stop then disconnect ?s4 else ?s4)\<lparr>client := Some \<lparr>is_open = False\<rparr>\<rparr>)
           | Closed \<Rightarrow> (Inr (), (if stop then disconnect ?s4 else ?s4)\<lparr>client := None\<rparr>))"
    unfolding connect_once_def Let_def attempt.case n r prod.case sum.case f bool.case
    by (rule refl)
  then show ?thesis
    using assms
    by (cases e; cases stop) (simp_all add: opened_trace_def disconnect_def)
qed

lemma sleeps_opened_trace: "sleeps (opened_trace frames self) = []"
proof -
  have a: "sleeps (map Sent rs) = []" for rs by (induction rs) simp_all
  have b: "sleeps (map (\<lambda>f. Dispatched (Frame f)) fs) = []" for fs by (induction fs) simp_all
  show ?thesis by (simp add: opened_trace_def sleeps_append a b)
qed

lemma failures_from_one:
  assumes "should_run self" "max_reconnect_delay self = 30" "reconnect_delay self = 1"
  shows "sleeps (trace (connect_loop (failures n) self)) =
           sleeps (trace self) @ map (backoff_delay 30) [0..<n]"
proof -
  have "reconnect_delay self = min (1 * 2 ^ 0) 30" using assms(3) by simp
  from failures_sleeps[OF assms(1) _ assms(2) this, of n]
  show ?thesis by (simp add: backoff_delay_def)
qed

text \<open>
  Claim C3.  With the maximum delay 30: \<open>connect\<close> followed by \<open>n\<close> failures in a row
  sleeps \<open>min (2 ^ k) 30\<close> after the \<open>k\<close>-th of them, that is 1, 2, 4, 8, 16, 30, 30, ...;
  and from any state of the running loop, whatever the delay has grown to, an attempt
  that opens the transport sets the delay back to 1.  If that connection drops, the
  drop is followed by a sleep of 1 and the \<open>n\<close> failures after it by 2, 4, ...; if it
  closes without an exception, the failures after it are followed by 1, 2, 4, ....
\<close>

theorem backoff_sequence:
  assumes "max_reconnect_delay self = 30"
  shows "sleeps (trace (connect (failures n) self)) =
           sleeps (trace self) @ map (backoff_delay 30) [0..<n]
       \<and> (should_run self \<longrightarrow>
            sleeps (trace (connect_loop ((Opened frames Dropped, False) # failures n) self)) =
              sleeps (trace self) @ map (backoff_delay 30) [0..<Suc n])
       \<and> (should_run self \<longrightarrow>
            sleeps (trace (connect_loop ((Opened frames Closed, False) # failures n) self)) =
              sleeps (trace self) @ map (backoff_delay 30) [0..<n])"
proof (intro conjI impI)
  show "sleeps (trace (connect (failures n) self)) =
           sleeps (trace self) @ map (backoff_delay 30) [0..<n]"
    unfolding connect_def
    using failures_from_one[of "self\<lparr>should_run := True, reconnect_delay := 1\<rparr>" n] assms
    by simp
next
  assume run: "should_run self"
  let ?s1 = "self\<lparr>state := CONNECTED, reconnect_delay := 1,
                 client := Some \<lparr>is_open = False\<rparr>, should_run := True,
                 trace := trace self @ opened_trace frames self\<rparr>"
  have step: "connect_loop ((Opened frames Dropped, False) # failures n) self =
                connect_loop (failures n) (backoff ?s1)"
    using run by (simp add: connect_once_Opened)
  have a: "should_run (backoff ?s1)" by (simp add: backoff_fields)
  have b: "max_reconnect_delay (backoff ?s1) = 30" using assms by (simp add: backoff_fields)
  have c: "reconnect_delay (backoff ?s1) = min (1 * 2 ^ 1) 30"
    using assms by (simp add: backoff_fields)
  have t: "sleeps (trace (backoff ?s1)) = sleeps (trace self) @ [1]"
    by (simp add: backoff_fields sleeps_append sleeps_opened_trace)
  have m: "map (backoff_delay 30) [0..<Suc n] = 1 # map (\<lambda>k. min (1 * 2 ^ (1 + k)) 30) [0..<n]"
    by (simp add: upt_rec[of 0 "Suc n"] map_Suc_upt[symmetric] backoff_delay_def del: upt_Suc)
  from failures_sleeps[OF a _ b c, of n]
  show "sleeps (trace (connect_loop ((Opened frames Dropped, False) # failures n) self)) =
          sleeps (trace self) @ map (backoff_delay 30) [0..<Suc n]"
    unfolding step t m by simp
next
  assume run: "should_run self"
  let ?s1 = "self\<lparr>state := CONNECTED, reconnect_delay := 1,
                 client := None, should_run := True,
                 trace := trace self @ opened_trace frames self\<rparr>"
  have step: "connect_loop ((Opened frames Closed, False) # failures n) self =
                connect_loop (failures n) ?s1"
    using run by (simp add: connect_once_Opened)
  have "sleeps (trace (connect_loop (failures n) ?s1)) =
          sleeps (trace ?s1) @ map (backoff_delay 30) [0..<n]"
    using assms by (intro failures_from_one) simp_all
  then show "sleeps (trace (connect_loop ((Opened frames Closed, False) # failures n) self)) =
          sleeps (trace self) @ map (backoff_delay 30) [0..<n]"
    unfolding step by (simp add: sleeps_append sleeps_opened_trace)
qed

theorem backoff_sequence_witness:
  "max_reconnect_delay new_manager = 30
   \<and> sleeps (trace (connect (failures 8) new_manager)) = [1, 2, 4, 8, 16, 30, 30, 30]
   \<and> should_run (open_manager\<lparr>reconnect_delay := 30\<rparr>)
   \<and> sleeps (trace (connect_loop ((Opened [] Dropped, False) # failures 2)
                      (open_manager\<lparr>reconnect_delay := 30\<rparr>))) = [1, 2, 4]
   \<and> sleeps (trace (connect_loop ((Opened [] Closed, False) # failures 2)
                      (open_manager\<lparr>reconnect_delay := 30\<rparr>))) = [1, 2]"
proof -
  have m: "max_reconnect_delay new_manager = 30"
    and m2: "max_reconnect_delay (open_manager\<lparr>reconnect_delay := 30\<rparr>) = 30"
    and r: "should_run (open_manager\<lparr>reconnect_delay := 30\<rparr>)"
    and t: "trace new_manager = []" "trace (open_manager\<lparr>reconnect_delay := 30\<rparr>) = []"
    by (simp_all add: new_manager_def open_manager_def)
  have u2: "[0..<2] = [0, 1]" and u3: "[0..<3] = [0, 1, 2]"
    and u8: "[0..<8] = [0, 1, 2, 3, 4, 5, 6, 7]" by code_simp+
  from backoff_sequence[OF m, of 8 "[]"]
  have a: "sleeps (trace (connect (failures 8) new_manager)) = [1, 2, 4, 8, 16, 30, 30, 30]"
    by (simp add: t u8 backoff_delay_def)
  from backoff_sequence[OF m2, of 2 "[]"] r
  have b: "sleeps (trace (connect_loop ((Opened [] Dropped, False) # failures 2)
                      (open_manager\<lparr>reconnect_delay := 30\<rparr>))) = [1, 2, 4]"
    and c: "sleeps (trace (connect_loop ((Opened [] Closed, False) # failures 2)
                      (open_manager\<lparr>reconnect_delay := 30\<rparr>))) = [1, 2]"
    by (simp_all add: t u2 u3 backoff_delay_def del: upt_Suc)
  from m a r b c show ?thesis by blast
qed


section \<open>Sending\<close>

text \<open>
  Claim C5.  When no transport is open (the field is \<open>None\<close>, or the transport is
  closed), \<open>send\<close> and \<open>request\<close> raise the error "Not connected to XRPL" at once and
  leave the supervisor as it was: nothing is remembered for replay, nothing is sent.
\<close>

theorem not_connected_fails:
  assumes "\<not> is_connected self"
  shows "send req track self = (Inl NotConnected, self)
       \<and> request node req self = (Inl NotConnected, self)"
  using assms by (cases "client self") (simp_all add: send_def request_def)

theorem not_connected_fails_witness:
  "\<not> is_connected new_manager
   \<and> send (Subscribe (Some [LEDGER]) None) True new_manager = (Inl NotConnected, new_manager)
   \<and> request (\<lambda>r. ''reply'') (OtherRequest ''account_info'') new_manager
       = (Inl NotConnected, new_manager)
   \<and> \<not> is_connected (new_manager\<lparr>client := Some \<lparr>is_open = False\<rparr>\<rparr>)
   \<and> send (Subscribe (Some [LEDGER]) None) True
        (new_manager\<lparr>client := Some \<lparr>is_open = False\<rparr>\<rparr>)
       = (Inl NotConnected, new_manager\<lparr>client := Some \<lparr>is_open = False\<rparr>\<rparr>)"
proof -
  have a: "\<not> is_connected new_manager"
    and b: "\<not> is_connected (new_manager\<lparr>client := Some \<lparr>is_open = False\<rparr>\<rparr>)"
    by (simp_all add: is_connected_def new_manager_def)
  from not_connected_fails[OF a] not_connected_fails[OF b] a b
  show ?thesis by blast
qed

lemma send_connected:
  assumes "is_connected self"
  shows "send req track self =
           (Inr (), self\<lparr>pending_subscriptions :=
                          (if track then pending_subscriptions self @ [req]
                           else pending_subscriptions self),
                        trace := trace self @ [Sent req]\<rparr>)"
  using assms
  by (cases "client self") (simp_all add: send_def is_connected_def transport_send_def)

lemma send_keeps_connected:
  "is_connected self \<Longrightarrow> is_connected (snd (send req track self))"
  by (simp add: send_connected) (simp add: is_connected_def)

lemma send_untracked_pending:
  "pending_subscriptions (snd (send req False self)) = pending_subscriptions self"
  by (cases "client self") (simp_all add: send_def transport_send_def)


section \<open>Subscribing\<close>

lemma subscribe_accounts_sends:
  assumes "is_connected (connection self)"
    and "filter (\<lambda>addr. addr \<notin> subscribed_accounts self) addresses \<noteq> []"
  shows "subscribe_accounts addresses self =
           (Inr (),
            self\<lparr>connection := (connection self)
                   \<lparr>pending_subscriptions :=
                      pending_subscriptions (connection self)
                        @ [Subscribe None
                             (Some (filter (\<lambda>addr. addr \<notin> subscribed_accounts self) addresses))],
                    trace :=
                      trace (connection self)
                        @ [Sent (Subscribe None
                             (Some (filter (\<lambda>addr. addr \<notin> subscribed_accounts self) addresses)))]\<rparr>,
                 subscribed_accounts :=
                   subscribed_accounts self
                     \<union> set (filter (\<lambda>addr. addr \<notin> subscribed_accounts self) addresses)\<rparr>)"
  using assms(2) unfolding subscribe_accounts_def Let_def
  by (simp add: send_connected[OF assms(1)])

text \<open>
  Claim C4, as the code has it.  For every tracker, \<open>subscribe_accounts\<close> with addresses
  that are all subscribed, and \<open>_subscribe_stream\<close> with a subscribed stream, return the
  tracker as it was, with its supervisor: no request is sent and the replay list is the
  same.  For every tracker whose supervisor has an open transport, \<open>subscribe_accounts\<close>
  with at least one address that is not subscribed sends one \<open>Subscribe\<close> request that
  carries all the addresses of the call that are not subscribed, in the order of the
  call, remembers that request for replay and adds the addresses to the tracker;
  \<open>_subscribe_stream\<close> with a stream that is not subscribed sends one request with that
  stream and remembers it.  So with two different addresses \<open>a\<close> and \<open>b\<close>, neither
  subscribed, \<open>subscribe_accounts [a]\<close> and then \<open>subscribe_accounts [a, b]\<close> send two
  requests, the second with \<open>b\<close> alone.
\<close>

theorem subscribe_idempotent:
  "(set addresses \<subseteq> subscribed_accounts self \<longrightarrow>
      subscribe_accounts addresses self = (Inr (), self))
   \<and> (stream \<in> subscribed_streams self \<longrightarrow> subscribe_stream stream self = (Inr (), self))
   \<and> (is_connected (connection self)
        \<and> filter (\<lambda>addr. addr \<notin> subscribed_accounts self) addresses \<noteq> [] \<longrightarrow>
      subscribe_accounts addresses self =
        (Inr (),
         self\<lparr>connection := (connection self)
                \<lparr>pending_subscriptions :=
                   pending_subscriptions (connection self)
                     @ [Subscribe None
                          (Some (filter (\<lambda>addr. addr \<notin> subscribed_accounts self) addresses))],
                 trace :=
                   trace (connection self)
                     @ [Sent (Subscribe None
                          (Some (filter (\<lambda>addr. addr \<notin> subscribed_accounts self) addresses)))]\<rparr>,
              subscribed_accounts :=
                subscribed_accounts self
                  \<union> set (filter (\<lambda>addr. addr \<notin> subscribed_accounts self) addresses)\<rparr>))
   \<and> (is_connected (connection self) \<and> stream \<notin> subscribed_streams self \<longrightarrow>
      subscribe_stream stream self =
        (Inr (),
         self\<lparr>connection := (connection self)
                \<lparr>pending_subscriptions :=
                   pending_subscriptions (connection self) @ [Subscribe (Some [stream]) None],
                 trace := trace (connection self) @ [Sent (Subscribe (Some [stream]) None)]\<rparr>,
              subscribed_streams := insert stream (subscribed_streams self)\<rparr>))
   \<and> (is_connected (connection self) \<and> a \<notin> subscribed_accounts self
        \<and> b \<notin> subscribed_accounts self \<and> a \<noteq> b \<longrightarrow>
      (\<exists>t1 t2. subscribe_accounts [a] self = (Inr (), t1)
         \<and> subscribe_accounts [a, b] t1 = (Inr (), t2)
         \<and> trace (connection t2) =
             trace (connection self)
               @ [Sent (Subscribe None (Some [a])), Sent (Subscribe None (Some [b]))]
         \<and> pending_subscriptions (connection t2) =
             pending_subscriptions (connection self)
               @ [Subscribe None (Some [a]), Subscribe None (Some [b])]
         \<and> subscribed_accounts t2 = subscribed_accounts self \<union> {a, b}))"
proof (intro conjI impI)
  assume "set addresses \<subseteq> subscribed_accounts self"
  then have "filter (\<lambda>addr. addr \<notin> subscribed_accounts self) addresses = []"
    by (auto simp: filter_empty_conv)
  then show "subscribe_accounts addresses self = (Inr (), self)"
    by (simp add: subscribe_accounts_def)
next
  assume "stream \<in> subscribed_streams self"
  then show "subscribe_stream stream self = (Inr (), self)"
    by (simp add: subscribe_stream_def)
next
  assume "is_connected (connection self)
        \<and> filter (\<lambda>addr. addr \<notin> subscribed_accounts self) addresses \<noteq> []"
  then show "subscribe_accounts addresses self =
        (Inr (),
         self\<lparr>connection := (connection self)
                \<lparr>pending_subscriptions :=
                   pending_subscriptions (connection self)
                     @ [Subscribe None
                          (Some (filter (\<lambda>addr. addr \<notin> subscribed_accounts self) addresses))],
                 trace :=
                   trace (connection self)
                     @ [Sent (Subscribe None
                          (Some (filter (\<lambda>addr. addr \<notin> subscribed_accounts self) addresses)))]\<rparr>,
              subscribed_accounts :=
                subscribed_accounts self
                  \<union> set (filter (\<lambda>addr. addr \<notin> subscribed_accounts self) addresses)\<rparr>)"
    using subscribe_accounts_sends by blast
next
  assume "is_connected (connection self) \<and> stream \<notin> subscribed_streams self"
  then show "subscribe_stream stream self =
        (Inr (),
         self\<lparr>connection := (connection self)
                \<lparr>pending_subscriptions :=
                   pending_subscriptions (connection self) @ [Subscribe (Some [stream]) None],
                 trace := trace (connection self) @ [Sent (Subscribe (Some [stream]) None)]\<rparr>,
              subscribed_streams := insert stream (subscribed_streams self)\<rparr>)"
    by (simp add: subscribe_stream_def send_connected)
next
  assume h: "is_connected (connection self) \<and> a \<notin> subscribed_accounts self
        \<and> b \<notin> subscribed_accounts self \<and> a \<noteq> b"
  let ?c1 = "(connection self)\<lparr>pending_subscriptions :=
                pending_subscriptions (connection self) @ [Subscribe None (Some [a])],
              trace := trace (connection self) @ [Sent (Subscribe None (Some [a]))]\<rparr>"
  let ?t1 = "self\<lparr>connection := ?c1, subscribed_accounts := subscribed_accounts self \<union> set [a]\<rparr>"
  let ?c2 = "?c1\<lparr>pending_subscriptions :=
                pending_subscriptions ?c1 @ [Subscribe None (Some [b])],
              trace := trace ?c1 @ [Sent (Subscribe None (Some [b]))]\<rparr>"
  let ?t2 = "?t1\<lparr>connection := ?c2, subscribed_accounts := subscribed_accounts ?t1 \<union> set [b]\<rparr>"
  from h have conn: "is_connected (connection self)"
    and na: "a \<notin> subscribed_accounts self" and nb: "b \<notin> subscribed_accounts self"
    and ne: "b \<noteq> a" by auto
  have f1: "filter (\<lambda>addr. addr \<notin> subscribed_accounts self) [a] = [a]"
    using na by simp
  have s1: "subscribe_accounts [a] self = (Inr (), ?t1)"
    unfolding subscribe_accounts_def Let_def f1
    by (simp add: send_connected[OF conn])
  have c1: "is_connected ?c1" using conn by (simp add: is_connected_def)
  have f2: "filter (\<lambda>addr. addr \<notin> subscribed_accounts ?t1) [a, b] = [b]"
    using nb ne by simp
  have cc: "connection ?t1 = ?c1" by simp
  have s2: "subscribe_accounts [a, b] ?t1 = (Inr (), ?t2)"
    unfolding subscribe_accounts_def Let_def f2 cc
    by (simp add: send_connected[OF c1])
  show "\<exists>t1 t2. subscribe_accounts [a] self = (Inr (), t1)
         \<and> subscribe_accounts [a, b] t1 = (Inr (), t2)
         \<and> trace (connection t2) =
             trace (connection self)
               @ [Sent (Subscribe None (Some [a])), Sent (Subscribe None (Some [b]))]
         \<and> pending_subscriptions (connection t2) =
             pending_subscriptions (connection self)
               @ [Subscribe None (Some [a]), Subscribe None (Some [b])]
         \<and> subscribed_accounts t2 = subscribed_accounts self \<union> {a, b}"
    by (intro exI[of _ ?t1] exI[of _ ?t2] conjI s1 s2) auto
qed

text \<open>
  The witness.  The tracker \<open>ledger_tracker\<close> holds the ledger stream and the account
  rA over an open transport: a call with rA alone sends nothing, and a call with rC, rA,
  rB sends one request that carries rC and rB.  A new tracker over an open transport is
  taken through the two calls with rA and then rA and rB.
\<close>

theorem subscribe_idempotent_witness:
  "set [''rA''] \<subseteq> subscribed_accounts ledger_tracker
   \<and> subscribe_accounts [''rA''] ledger_tracker = (Inr (), ledger_tracker)
   \<and> LEDGER \<in> subscribed_streams ledger_tracker
   \<and> subscribe_stream LEDGER ledger_tracker = (Inr (), ledger_tracker)
   \<and> is_connected (connection ledger_tracker)
   \<and> filter (\<lambda>addr. addr \<notin> subscribed_accounts ledger_tracker) [''rC'', ''rA'', ''rB'']
       = [''rC'', ''rB'']
   \<and> subscribe_accounts [''rC'', ''rA'', ''rB''] ledger_tracker =
        (Inr (),
         ledger_tracker
           \<lparr>connection := replay_manager
              \<lparr>pending_subscriptions :=
                 [ledger_request, account_request, Subscribe None (Some [''rC'', ''rB''])],
               trace := [Sent (Subscribe None (Some [''rC'', ''rB'']))]\<rparr>,
            subscribed_accounts := {''rA'', ''rC'', ''rB''}\<rparr>)
   \<and> TRANSACTIONS \<notin> subscribed_streams ledger_tracker
   \<and> subscribe_stream TRANSACTIONS ledger_tracker =
        (Inr (),
         ledger_tracker
           \<lparr>connection := replay_manager
              \<lparr>pending_subscriptions :=
                 [ledger_request, account_request, Subscribe (Some [TRANSACTIONS]) None],
               trace := [Sent (Subscribe (Some [TRANSACTIONS]) None)]\<rparr>,
            subscribed_streams := {TRANSACTIONS, LEDGER}\<rparr>)
   \<and> is_connected (connection (new_tracker open_manager))
   \<and> (\<exists>t1 t2. subscribe_accounts [''rA''] (new_tracker open_manager) = (Inr (), t1)
         \<and> subscribe_accounts [''rA'', ''rB''] t1 = (Inr (), t2)
         \<and> trace (connection t2) =
             [Sent (Subscribe None (Some [''rA''])), Sent (Subscribe None (Some [''rB'']))]
         \<and> pending_subscriptions (connection t2) =
             [Subscribe None (Some [''rA'']), Subscribe None (Some [''rB''])]
         \<and> subscribed_accounts t2 = {''rA'', ''rB''})"
proof -
  let ?T = ledger_tracker and ?N = "new_tracker open_manager"
  have a: "set [''rA''] \<subseteq> subscribed_accounts ?T"
    and b: "LEDGER \<in> subscribed_streams ?T"
    and nt: "TRANSACTIONS \<notin> subscribed_streams ?T"
    and cT: "is_connected (connection ?T)"
    and f: "filter (\<lambda>addr. addr \<notin> subscribed_accounts ?T) [''rC'', ''rA'', ''rB'']
              = [''rC'', ''rB'']"
    by (simp_all add: ledger_tracker_def replay_manager_def open_manager_def is_connected_def)
  have c: "is_connected (connection ?N)
           \<and> ''rA'' \<notin> subscribed_accounts ?N \<and> ''rB'' \<notin> subscribed_accounts ?N
           \<and> ''rA'' \<noteq> ''rB''"
    by (simp add: new_tracker_def open_manager_def is_connected_def)
  have e: "trace (connection ?N) = []" "pending_subscriptions (connection ?N) = []"
    "subscribed_accounts ?N = {}"
    by (simp_all add: new_tracker_def open_manager_def new_manager_def)
  have eT: "connection ?T = replay_manager"
    "pending_subscriptions replay_manager = [ledger_request, account_request]"
    "trace replay_manager = []"
    "subscribed_accounts ?T \<union> set [''rC'', ''rB''] = {''rA'', ''rC'', ''rB''}"
    "insert TRANSACTIONS (subscribed_streams ?T) = {TRANSACTIONS, LEDGER}"
    by (auto simp: ledger_tracker_def replay_manager_def open_manager_def new_manager_def)
  note th1 = subscribe_idempotent[where self = ?T and addresses = "[''rA'']" and stream = LEDGER]
  note th2 = subscribe_idempotent[where self = ?T and addresses = "[''rC'', ''rA'', ''rB'']"
      and stream = TRANSACTIONS, unfolded f]
  note th3 = subscribe_idempotent[where self = ?N and a = "''rA''" and b = "''rB''",
      unfolded e]
  from th1 a have r1: "subscribe_accounts [''rA''] ?T = (Inr (), ?T)" by blast
  from th1 b have r2: "subscribe_stream LEDGER ?T = (Inr (), ?T)" by blast
  have ne: "[''rC'', ''rB''] \<noteq> []" by simp
  from th2 cT ne have "subscribe_accounts [''rC'', ''rA'', ''rB''] ?T =
        (Inr (),
         ?T\<lparr>connection := (connection ?T)
                \<lparr>pending_subscriptions :=
                   pending_subscriptions (connection ?T)
                     @ [Subscribe None (Some [''rC'', ''rB''])],
                 trace := trace (connection ?T) @ [Sent (Subscribe None (Some [''rC'', ''rB'']))]\<rparr>,
              subscribed_accounts := subscribed_accounts ?T \<union> set [''rC'', ''rB'']\<rparr>)"
    by blast
  then have r3: "subscribe_accounts [''rC'', ''rA'', ''rB''] ?T =
        (Inr (),
         ?T\<lparr>connection := replay_manager
              \<lparr>pending_subscriptions :=
                 [ledger_request, account_request, Subscribe None (Some [''rC'', ''rB''])],
               trace := [Sent (Subscribe None (Some [''rC'', ''rB'']))]\<rparr>,
            subscribed_accounts := {''rA'', ''rC'', ''rB''}\<rparr>)"
    unfolding eT by simp
  from th2 cT nt have "subscribe_stream TRANSACTIONS ?T =
        (Inr (),
         ?T\<lparr>connection := (connection ?T)
                \<lparr>pending_subscriptions :=
                   pending_subscriptions (connection ?T) @ [Subscribe (Some [TRANSACTIONS]) None],
                 trace := trace (connection ?T) @ [Sent (Subscribe (Some [TRANSACTIONS]) None)]\<rparr>,
              subscribed_streams := insert TRANSACTIONS (subscribed_streams ?T)\<rparr>)"
    by blast
  then have r4: "subscribe_stream TRANSACTIONS ?T =
        (Inr (),
         ?T\<lparr>connection := replay_manager
              \<lparr>pending_subscriptions :=
                 [ledger_request, account_request, Subscribe (Some [TRANSACTIONS]) None],
               trace := [Sent (Subscribe (Some [TRANSACTIONS]) None)]\<rparr>,
            subscribed_streams := {TRANSACTIONS, LEDGER}\<rparr>)"
    unfolding eT by simp
  from th3 c have "\<exists>t1 t2. subscribe_accounts [''rA''] ?N = (Inr (), t1)
         \<and> subscribe_accounts [''rA'', ''rB''] t1 = (Inr (), t2)
         \<and> trace (connection t2) =
             [] @ [Sent (Subscribe None (Some [''rA''])), Sent (Subscribe None (Some [''rB'']))]
         \<and> pending_subscriptions (connection t2) =
             [] @ [Subscribe None (Some [''rA'']), Subscribe None (Some [''rB''])]
         \<and> subscribed_accounts t2 = {} \<union> {''rA'', ''rB''}" by blast
  then have r5: "\<exists>t1 t2. subscribe_accounts [''rA''] ?N = (Inr (), t1)
         \<and> subscribe_accounts [''rA'', ''rB''] t1 = (Inr (), t2)
         \<and> trace (connection t2) =
             [Sent (Subscribe None (Some [''rA''])), Sent (Subscribe None (Some [''rB'']))]
         \<and> pending_subscriptions (connection t2) =
             [Subscribe None (Some [''rA'']), Subscribe None (Some [''rB''])]
         \<and> subscribed_accounts t2 = {''rA'', ''rB''}" by simp
  from a r1 b r2 cT f r3 nt r4 c r5 show ?thesis by blast
qed

text \<open>
  Claim C4 as it is written, for every tracker state, fails in its second half.  On the
  tracker \<open>ledger_tracker\<close>, which holds rA already, the call with rA sends nothing and
  the call with rA and rB sends the only request of the two calls.  On a new tracker
  whose supervisor has no transport, both calls raise and nothing is sent.
\<close>

theorem subscribed_or_disconnected_counterexample:
  "trace (connection ledger_tracker) = []
   \<and> subscribe_accounts [''rA''] ledger_tracker = (Inr (), ledger_tracker)
   \<and> fst (subscribe_accounts [''rA'', ''rB''] ledger_tracker) = Inr ()
   \<and> trace (connection (snd (subscribe_accounts [''rA'', ''rB''] ledger_tracker)))
       = [Sent (Subscribe None (Some [''rB'']))]
   \<and> trace (connection (new_tracker new_manager)) = []
   \<and> subscribe_accounts [''rA''] (new_tracker new_manager)
       = (Inl NotConnected, new_tracker new_manager)
   \<and> subscribe_accounts [''rA'', ''rB''] (new_tracker new_manager)
       = (Inl NotConnected, new_tracker new_manager)"
  by (simp add: subscribe_accounts_def ledger_tracker_def replay_manager_def open_manager_def
      new_manager_def new_tracker_def send_def is_connected_def transport_send_def Let_def)


section \<open>Replay after a reconnect\<close>

lemma restore_loop_pending:
  "pending_subscriptions (snd (restore_loop reqs self)) = pending_subscriptions self"
  by (induction reqs arbitrary: self)
     (auto simp: transport_send_def split: option.splits)

lemma read_frames_pending:
  "pending_subscriptions (snd (read_frames fs self)) = pending_subscriptions self"
  by (induction fs arbitrary: self) auto

lemma connect_once_pending:
  "pending_subscriptions (snd (connect_once a stop self)) = pending_subscriptions self"
proof (cases a)
  case OpenFails
  then show ?thesis
    by (simp add: connect_once_def Let_def notify_state_change_def disconnect_def)
next
  case (Opened frames e)
  let ?s2 = "notify_state_change
               ((notify_state_change (self\<lparr>state := CONNECTING\<rparr>))
                  \<lparr>client := Some \<lparr>is_open = True\<rparr>, state := CONNECTED, reconnect_delay := 1\<rparr>)"
  obtain r3 s3 where r: "restore_subscriptions ?s2 = (r3, s3)"
    by (cases "restore_subscriptions ?s2")
  have p3: "pending_subscriptions s3 = pending_subscriptions self"
    using restore_loop_pending[of "pending_subscriptions ?s2" ?s2] r
    by (simp add: restore_subscriptions_def notify_state_change_def)
  obtain b4 s4 where f: "read_frames frames s3 = (b4, s4)"
    by (cases "read_frames frames s3")
  have p4: "pending_subscriptions s4 = pending_subscriptions self"
    using read_frames_pending[of frames s3] f p3 by simp
  show ?thesis
    unfolding Opened connect_once_def Let_def attempt.case r prod.case
    using p3 p4 f
    by (cases r3; cases b4; cases e; cases stop) (simp_all add: disconnect_def)
qed

lemma backoff_pending: "pending_subscriptions (backoff self) = pending_subscriptions self"
  by (simp add: backoff_def sleep_def notify_state_change_def Let_def)

lemma leave_fields:
  "pending_subscriptions (leave self) = pending_subscriptions self"
  "should_run (leave self) = should_run self"
  by (simp_all add: leave_def notify_state_change_def)

lemma connect_loop_pending:
  "pending_subscriptions (connect_loop script self) = pending_subscriptions self"
proof (induction script arbitrary: self)
  case Nil
  then show ?case by (simp add: leave_fields)
next
  case (Cons x script)
  obtain a stop where x: "x = (a, stop)" by (cases x)
  obtain r1 s1 where c: "connect_once a stop self = (r1, s1)"
    by (cases "connect_once a stop self")
  have p1: "pending_subscriptions s1 = pending_subscriptions self"
    using connect_once_pending[of a stop self] c by simp
  show ?case
  proof (cases "should_run self")
    case False
    then show ?thesis by (simp add: x leave_fields)
  next
    case True
    show ?thesis
    proof (cases r1)
      case (Inr u)
      with True c p1 Cons.IH[of s1] show ?thesis by (simp add: x)
    next
      case (Inl err)
      with True c p1 Cons.IH[of "backoff s1"] show ?thesis
        by (cases "should_run s1") (simp_all add: x leave_fields backoff_pending)
    qed
  qed
qed

lemma connect_loop_append:
  "should_run (connect_loop pre self) \<Longrightarrow>
     connect_loop (pre @ post) self = connect_loop post (connect_loop pre self)"
proof (induction pre arbitrary: self)
  case Nil
  then show ?case by (cases "should_run self") (simp_all add: leave_fields)
next
  case (Cons x pre)
  obtain a stop where x: "x = (a, stop)" by (cases x)
  obtain r1 s1 where c: "connect_once a stop self = (r1, s1)"
    by (cases "connect_once a stop self")
  have run: "should_run self"
    using Cons.prems by (cases "should_run self") (simp_all add: x leave_fields)
  show ?case
  proof (cases r1)
    case (Inr u)
    from Cons.prems run c Inr have "should_run (connect_loop pre s1)" by (simp add: x)
    from Cons.IH[OF this] run c Inr show ?thesis by (simp add: x)
  next
    case (Inl err)
    have run1: "should_run s1"
      using Cons.prems run c Inl by (cases "should_run s1") (simp_all add: x leave_fields)
    from Cons.prems run c Inl run1 have "should_run (connect_loop pre (backoff s1))"
      by (simp add: x)
    from Cons.IH[OF this] run c Inl run1 show ?thesis by (simp add: x)
  qed
qed

lemma opened_last:
  assumes "should_run self"
  shows "\<exists>rest. trace (connect_loop [(Opened frames e, stop)] self) =
           trace self @ opened_trace frames self @ rest"
  using assms
  by (cases e; cases stop)
     (simp_all add: connect_once_Opened leave_def notify_state_change_def backoff_def
        sleep_def Let_def)

lemma replayed_after_reopen:
  assumes "req \<in> set (pending_subscriptions self)" "should_run (connect_loop pre self)"
  shows "Sent req \<in> set (new_events (connect_loop pre self)
                           (connect_loop (pre @ [(Opened frames e, stop)]) self))"
proof -
  let ?m = "connect_loop pre self"
  have p: "req \<in> set (pending_subscriptions ?m)"
    using assms(1) by (simp add: connect_loop_pending)
  obtain rest where
    "trace (connect_loop [(Opened frames e, stop)] ?m) = trace ?m @ opened_trace frames ?m @ rest"
    using opened_last[OF assms(2)] by blast
  then have "new_events ?m (connect_loop (pre @ [(Opened frames e, stop)]) self)
               = opened_trace frames ?m @ rest"
    by (simp add: new_events_def connect_loop_append[OF assms(2)])
  then show ?thesis using p by (simp add: opened_trace_def)
qed

lemma failures_keep_running:
  "should_run self \<Longrightarrow> should_run (connect_loop (failures n) self)"
proof (induction n arbitrary: self)
  case 0
  then show ?case by (simp add: failures_def)
next
  case (Suc n)
  let ?s2 = "backoff (notify_state_change (self\<lparr>state := CONNECTING\<rparr>))"
  have "connect_loop (failures (Suc n)) self = connect_loop (failures n) ?s2"
    using Suc.prems by (simp add: failures_def connect_once_OpenFails notify_fields)
  moreover have "should_run ?s2" using Suc.prems by (simp add: backoff_fields notify_fields)
  ultimately show ?case using Suc.IH by simp
qed

lemma unsubscribe_all_clears:
  assumes "fst (unsubscribe_all list_streams list_accounts self) = Inr ()"
  shows "pending_subscriptions
           (connection (snd (unsubscribe_all list_streams list_accounts self))) = []"
proof -
  obtain r1 t1 where a: "unsubscribe_all_streams list_streams self = (r1, t1)"
    by (cases "unsubscribe_all_streams list_streams self")
  obtain r2 t2 where b: "unsubscribe_all_accounts list_accounts t1 = (r2, t2)"
    by (cases "unsubscribe_all_accounts list_accounts t1")
  show ?thesis
    using assms a b
    by (cases r1; cases r2) (simp_all add: unsubscribe_all_def clear_subscriptions_def)
qed

lemma unsubscribe_stream_pending:
  "pending_subscriptions (connection (snd (unsubscribe_stream stream self)))
     = pending_subscriptions (connection self)"
proof -
  obtain r c where s: "send (Unsubscribe (Some [stream]) None) False (connection self) = (r, c)"
    by (cases "send (Unsubscribe (Some [stream]) None) False (connection self)")
  then have "pending_subscriptions c = pending_subscriptions (connection self)"
    using send_untracked_pending[of "Unsubscribe (Some [stream]) None" "connection self"]
    by simp
  then show ?thesis
    using s by (cases r) (simp_all add: unsubscribe_stream_def)
qed

lemma unsubscribe_account_pending:
  "pending_subscriptions (connection (snd (unsubscribe_account addr self)))
     = pending_subscriptions (connection self)"
proof -
  obtain r c where s: "send (Unsubscribe None (Some [addr])) False (connection self) = (r, c)"
    by (cases "send (Unsubscribe None (Some [addr])) False (connection self)")
  then have "pending_subscriptions c = pending_subscriptions (connection self)"
    using send_untracked_pending[of "Unsubscribe None (Some [addr])" "connection self"]
    by simp
  then show ?thesis
    using s by (cases r) (simp_all add: unsubscribe_account_def)
qed

text \<open>
  Claim C10.  \<open>unsubscribe_stream\<close> and \<open>unsubscribe_account\<close> never change the
  supervisor's replay list; on an open connection they remove the entry from the
  tracker's set and send an \<open>Unsubscribe\<close> request.  \<open>unsubscribe_all\<close>, when it returns,
  leaves the replay list empty.  So a stream, or an account, subscribed and then
  unsubscribed on its own still has its \<open>Subscribe\<close> request in the replay list;
  \<open>_restore_subscriptions\<close> sends every request of the list on an open transport, and
  the reconnect loop, as long as it runs, sends each of them again in every attempt that
  opens the transport.
\<close>

theorem unsubscribe_keeps_replay_list:
  "pending_subscriptions (connection (snd (unsubscribe_stream stream self)))
     = pending_subscriptions (connection self)
   \<and> pending_subscriptions (connection (snd (unsubscribe_account addr self)))
     = pending_subscriptions (connection self)
   \<and> (is_connected (connection self) \<and> stream \<in> subscribed_streams self \<longrightarrow>
        unsubscribe_stream stream self =
          (Inr (), self\<lparr>connection := (connection self)
                           \<lparr>trace := trace (connection self)
                                       @ [Sent (Unsubscribe (Some [stream]) None)]\<rparr>,
                        subscribed_streams := subscribed_streams self - {stream}\<rparr>))
   \<and> (is_connected (connection self) \<and> addr \<in> subscribed_accounts self \<longrightarrow>
        unsubscribe_account addr self =
          (Inr (), self\<lparr>connection := (connection self)
                           \<lparr>trace := trace (connection self)
                                       @ [Sent (Unsubscribe None (Some [addr]))]\<rparr>,
                        subscribed_accounts := subscribed_accounts self - {addr}\<rparr>))
   \<and> (fst (unsubscribe_all list_streams list_accounts self) = Inr () \<longrightarrow>
        pending_subscriptions
          (connection (snd (unsubscribe_all list_streams list_accounts self))) = [])
   \<and> (is_connected (connection self) \<and> stream \<notin> subscribed_streams self \<longrightarrow>
        (\<exists>t1 t2. subscribe_stream stream self = (Inr (), t1)
           \<and> unsubscribe_stream stream t1 = (Inr (), t2)
           \<and> stream \<notin> subscribed_streams t2
           \<and> Subscribe (Some [stream]) None \<in> set (pending_subscriptions (connection t2))))
   \<and> (is_connected (connection self) \<and> addr \<notin> subscribed_accounts self \<longrightarrow>
        (\<exists>t1 t2. subscribe_account addr self = (Inr (), t1)
           \<and> unsubscribe_account addr t1 = (Inr (), t2)
           \<and> addr \<notin> subscribed_accounts t2
           \<and> Subscribe None (Some [addr]) \<in> set (pending_subscriptions (connection t2))))
   \<and> (is_connected m \<longrightarrow>
        restore_subscriptions m =
          (Inr (), m\<lparr>trace := trace m @ map Sent (pending_subscriptions m)\<rparr>))
   \<and> (req \<in> set (pending_subscriptions m) \<and> should_run (connect_loop pre m) \<longrightarrow>
        Sent req \<in> set (new_events (connect_loop pre m)
                           (connect_loop (pre @ [(Opened frames e, stop)]) m)))"
proof (intro conjI impI)
  show "pending_subscriptions (connection (snd (unsubscribe_stream stream self)))
          = pending_subscriptions (connection self)"
    by (rule unsubscribe_stream_pending)
next
  show "pending_subscriptions (connection (snd (unsubscribe_account addr self)))
          = pending_subscriptions (connection self)"
    by (rule unsubscribe_account_pending)
next
  assume "is_connected (connection self) \<and> stream \<in> subscribed_streams self"
  then show "unsubscribe_stream stream self =
          (Inr (), self\<lparr>connection := (connection self)
                           \<lparr>trace := trace (connection self)
                                       @ [Sent (Unsubscribe (Some [stream]) None)]\<rparr>,
                        subscribed_streams := subscribed_streams self - {stream}\<rparr>)"
    by (simp add: unsubscribe_stream_def send_connected)
next
  assume "is_connected (connection self) \<and> addr \<in> subscribed_accounts self"
  then show "unsubscribe_account addr self =
          (Inr (), self\<lparr>connection := (connection self)
                           \<lparr>trace := trace (connection self)
                                       @ [Sent (Unsubscribe None (Some [addr]))]\<rparr>,
                        subscribed_accounts := subscribed_accounts self - {addr}\<rparr>)"
    by (simp add: unsubscribe_account_def send_connected)
next
  assume "fst (unsubscribe_all list_streams list_accounts self) = Inr ()"
  then show "pending_subscriptions
          (connection (snd (unsubscribe_all list_streams list_accounts self))) = []"
    by (rule unsubscribe_all_clears)
next
  assume h: "is_connected (connection self) \<and> stream \<notin> subscribed_streams self"
  let ?r = "Subscribe (Some [stream]) None"
  let ?c1 = "(connection self)\<lparr>pending_subscriptions := pending_subscriptions (connection self) @ [?r],
                              trace := trace (connection self) @ [Sent ?r]\<rparr>"
  let ?t1 = "self\<lparr>connection := ?c1, subscribed_streams := insert stream (subscribed_streams self)\<rparr>"
  let ?c2 = "?c1\<lparr>trace := trace ?c1 @ [Sent (Unsubscribe (Some [stream]) None)]\<rparr>"
  let ?t2 = "?t1\<lparr>connection := ?c2, subscribed_streams := subscribed_streams ?t1 - {stream}\<rparr>"
  have s1: "subscribe_stream stream self = (Inr (), ?t1)"
    using h by (simp add: subscribe_stream_def send_connected)
  have c1: "is_connected ?c1" using h by (simp add: is_connected_def)
  have cc: "connection ?t1 = ?c1" by simp
  have s2: "unsubscribe_stream stream ?t1 = (Inr (), ?t2)"
    unfolding unsubscribe_stream_def cc by (simp add: send_connected[OF c1])
  show "\<exists>t1 t2. subscribe_stream stream self = (Inr (), t1)
           \<and> unsubscribe_stream stream t1 = (Inr (), t2)
           \<and> stream \<notin> subscribed_streams t2
           \<and> Subscribe (Some [stream]) None \<in> set (pending_subscriptions (connection t2))"
    by (intro exI[of _ ?t1] exI[of _ ?t2] conjI s1 s2) simp_all
next
  assume h: "is_connected (connection self) \<and> addr \<notin> subscribed_accounts self"
  let ?r = "Subscribe None (Some [addr])"
  let ?c1 = "(connection self)\<lparr>pending_subscriptions := pending_subscriptions (connection self) @ [?r],
                              trace := trace (connection self) @ [Sent ?r]\<rparr>"
  let ?t1 = "self\<lparr>connection := ?c1, subscribed_accounts := subscribed_accounts self \<union> set [addr]\<rparr>"
  let ?c2 = "?c1\<lparr>trace := trace ?c1 @ [Sent (Unsubscribe None (Some [addr]))]\<rparr>"
  let ?t2 = "?t1\<lparr>connection := ?c2, subscribed_accounts := subscribed_accounts ?t1 - {addr}\<rparr>"
  from h have conn: "is_connected (connection self)" and na: "addr \<notin> subscribed_accounts self"
    by auto
  have f1: "filter (\<lambda>a. a \<notin> subscribed_accounts self) [addr] = [addr]" using na by simp
  have s1: "subscribe_account addr self = (Inr (), ?t1)"
    unfolding subscribe_account_def subscribe_accounts_def Let_def f1
    by (simp add: send_connected[OF conn])
  have c1: "is_connected ?c1" using conn by (simp add: is_connected_def)
  have cc: "connection ?t1 = ?c1" by simp
  have s2: "unsubscribe_account addr ?t1 = (Inr (), ?t2)"
    unfolding unsubscribe_account_def cc by (simp add: send_connected[OF c1])
  show "\<exists>t1 t2. subscribe_account addr self = (Inr (), t1)
           \<and> unsubscribe_account addr t1 = (Inr (), t2)
           \<and> addr \<notin> subscribed_accounts t2
           \<and> Subscribe None (Some [addr]) \<in> set (pending_subscriptions (connection t2))"
    by (intro exI[of _ ?t1] exI[of _ ?t2] conjI s1 s2) simp_all
next
  assume "is_connected m"
  then obtain c where "client m = Some c" "is_open c"
    by (cases "client m") (simp_all add: is_connected_def)
  then show "restore_subscriptions m =
          (Inr (), m\<lparr>trace := trace m @ map Sent (pending_subscriptions m)\<rparr>)"
    unfolding restore_subscriptions_def by (rule restore_loop_open)
next
  assume "req \<in> set (pending_subscriptions m) \<and> should_run (connect_loop pre m)"
  then show "Sent req \<in> set (new_events (connect_loop pre m)
                           (connect_loop (pre @ [(Opened frames e, stop)]) m))"
    using replayed_after_reopen by blast
qed

theorem unsubscribe_keeps_replay_list_witness:
  "is_connected (connection ledger_tracker)
   \<and> LEDGER \<in> subscribed_streams ledger_tracker
   \<and> ''rA'' \<in> subscribed_accounts ledger_tracker
   \<and> pending_subscriptions (connection (snd (unsubscribe_stream LEDGER ledger_tracker)))
       = [ledger_request, account_request]
   \<and> pending_subscriptions (connection (snd (unsubscribe_account ''rA'' ledger_tracker)))
       = [ledger_request, account_request]
   \<and> fst (unsubscribe_stream LEDGER ledger_tracker) = Inr ()
   \<and> subscribed_streams (snd (unsubscribe_stream LEDGER ledger_tracker)) = {}
   \<and> trace (connection (snd (unsubscribe_stream LEDGER ledger_tracker)))
       = [Sent (Unsubscribe (Some [LEDGER]) None)]
   \<and> fst (unsubscribe_account ''rA'' ledger_tracker) = Inr ()
   \<and> subscribed_accounts (snd (unsubscribe_account ''rA'' ledger_tracker)) = {}
   \<and> fst (unsubscribe_all list_ledger list_account ledger_tracker) = Inr ()
   \<and> pending_subscriptions
        (connection (snd (unsubscribe_all list_ledger list_account ledger_tracker))) = []
   \<and> is_connected (connection (new_tracker open_manager))
   \<and> LEDGER \<notin> subscribed_streams (new_tracker open_manager)
   \<and> ''rA'' \<notin> subscribed_accounts (new_tracker open_manager)
   \<and> (\<exists>t1 t2. subscribe_stream LEDGER (new_tracker open_manager) = (Inr (), t1)
         \<and> unsubscribe_stream LEDGER t1 = (Inr (), t2)
         \<and> LEDGER \<notin> subscribed_streams t2
         \<and> ledger_request \<in> set (pending_subscriptions (connection t2)))
   \<and> (\<exists>t1 t2. subscribe_account ''rA'' (new_tracker open_manager) = (Inr (), t1)
         \<and> unsubscribe_account ''rA'' t1 = (Inr (), t2)
         \<and> ''rA'' \<notin> subscribed_accounts t2
         \<and> account_request \<in> set (pending_subscriptions (connection t2)))
   \<and> is_connected replay_manager
   \<and> restore_subscriptions replay_manager =
        (Inr (), replay_manager\<lparr>trace := [Sent ledger_request, Sent account_request]\<rparr>)
   \<and> ledger_request \<in> set (pending_subscriptions replay_manager)
   \<and> should_run (connect_loop (failures 2) replay_manager)
   \<and> Sent ledger_request \<in> set (new_events (connect_loop (failures 2) replay_manager)
        (connect_loop (failures 2 @ [(Opened [] Dropped, False)]) replay_manager))"
proof -
  let ?T = ledger_tracker and ?N = "new_tracker open_manager"
  have conn: "is_connected (connection ?T)" "is_connected replay_manager"
    "is_connected (connection ?N)"
    by (simp_all add: ledger_tracker_def replay_manager_def open_manager_def is_connected_def
        new_tracker_def)
  have mem: "LEDGER \<in> subscribed_streams ?T" "''rA'' \<in> subscribed_accounts ?T"
    by (simp_all add: ledger_tracker_def)
  have nmem: "LEDGER \<notin> subscribed_streams ?N" "''rA'' \<notin> subscribed_accounts ?N"
    by (simp_all add: new_tracker_def)
  have pend: "pending_subscriptions (connection ?T) = [ledger_request, account_request]"
    "pending_subscriptions replay_manager = [ledger_request, account_request]"
    and tr: "trace (connection ?T) = []" "trace replay_manager = []"
    and sets: "subscribed_streams ?T - {LEDGER} = {}" "subscribed_accounts ?T - {''rA''} = {}"
    by (simp_all add: ledger_tracker_def replay_manager_def open_manager_def new_manager_def)
  have run: "should_run (connect_loop (failures 2) replay_manager)"
    by (rule failures_keep_running) (simp add: replay_manager_def open_manager_def)
  have inl: "ledger_request \<in> set (pending_subscriptions replay_manager)"
    by (simp add: pend)
  have all: "fst (unsubscribe_all list_ledger list_account ?T) = Inr ()"
    by (simp add: unsubscribe_all_def unsubscribe_all_streams_def unsubscribe_all_accounts_def
        ledger_tracker_def replay_manager_def open_manager_def new_manager_def send_def
        is_connected_def transport_send_def list_ledger_def list_account_def)
  note A = unsubscribe_keeps_replay_list[where self = ?T and stream = LEDGER and addr = "''rA''"
      and list_streams = list_ledger and list_accounts = list_account and m = replay_manager
      and req = ledger_request and pre = "failures 2" and frames = "[]" and e = Dropped
      and stop = False]
  note B = unsubscribe_keeps_replay_list[where self = ?N and stream = LEDGER and addr = "''rA''"
      and m = replay_manager and req = ledger_request and pre = "[]"]
  from A have a1: "pending_subscriptions (connection (snd (unsubscribe_stream LEDGER ?T)))
       = [ledger_request, account_request]"
    and a2: "pending_subscriptions (connection (snd (unsubscribe_account ''rA'' ?T)))
       = [ledger_request, account_request]"
    by (simp_all add: pend)
  from A conn mem have a3: "unsubscribe_stream LEDGER ?T =
          (Inr (), ?T\<lparr>connection := (connection ?T)
                           \<lparr>trace := trace (connection ?T)
                                       @ [Sent (Unsubscribe (Some [LEDGER]) None)]\<rparr>,
                        subscribed_streams := subscribed_streams ?T - {LEDGER}\<rparr>)"
    and a4: "unsubscribe_account ''rA'' ?T =
          (Inr (), ?T\<lparr>connection := (connection ?T)
                           \<lparr>trace := trace (connection ?T)
                                       @ [Sent (Unsubscribe None (Some [''rA'']))]\<rparr>,
                        subscribed_accounts := subscribed_accounts ?T - {''rA''}\<rparr>)"
    by blast+
  have a3': "fst (unsubscribe_stream LEDGER ?T) = Inr ()"
    "subscribed_streams (snd (unsubscribe_stream LEDGER ?T)) = {}"
    "trace (connection (snd (unsubscribe_stream LEDGER ?T)))
       = [Sent (Unsubscribe (Some [LEDGER]) None)]"
    unfolding a3 by (simp_all add: tr sets)
  have a4': "fst (unsubscribe_account ''rA'' ?T) = Inr ()"
    "subscribed_accounts (snd (unsubscribe_account ''rA'' ?T)) = {}"
    unfolding a4 by (simp_all add: sets)
  from A all have a5: "pending_subscriptions
        (connection (snd (unsubscribe_all list_ledger list_account ?T))) = []" by blast
  from B conn nmem have b6: "\<exists>t1 t2. subscribe_stream LEDGER ?N = (Inr (), t1)
         \<and> unsubscribe_stream LEDGER t1 = (Inr (), t2)
         \<and> LEDGER \<notin> subscribed_streams t2
         \<and> Subscribe (Some [LEDGER]) None \<in> set (pending_subscriptions (connection t2))"
    and b7: "\<exists>t1 t2. subscribe_account ''rA'' ?N = (Inr (), t1)
         \<and> unsubscribe_account ''rA'' t1 = (Inr (), t2)
         \<and> ''rA'' \<notin> subscribed_accounts t2
         \<and> Subscribe None (Some [''rA'']) \<in> set (pending_subscriptions (connection t2))"
    by blast+
  from A conn have a8: "restore_subscriptions replay_manager =
        (Inr (), replay_manager\<lparr>trace := trace replay_manager
                                   @ map Sent (pending_subscriptions replay_manager)\<rparr>)"
    by blast
  then have a8': "restore_subscriptions replay_manager =
        (Inr (), replay_manager\<lparr>trace := [Sent ledger_request, Sent account_request]\<rparr>)"
    by (simp add: pend tr)
  from A inl run have a9: "Sent ledger_request \<in> set (new_events (connect_loop (failures 2) replay_manager)
        (connect_loop (failures 2 @ [(Opened [] Dropped, False)]) replay_manager))"
    by blast
  from conn mem a1 a2 a3' a4' all a5 nmem b6[folded ledger_request_def]
    b7[folded account_request_def] a8' inl run a9
  show ?thesis by blast
qed


section \<open>Dispatch\<close>





end
